theory Spec2Isabelle
  imports Main
begin

section \<open>JavaScript strings\<close>

text \<open>
  The service is the Express application of the repository: accounts in two JSON
  files, sessions in memory, a task list per account. Its strings are modelled as
  \<^typ>\<open>string\<close>, one \<^typ>\<open>char\<close> per UTF-16 code unit, which covers the code units
  0..255 (Latin-1). On that range \<^verbatim>\<open>String.prototype.toLowerCase\<close> adds 32
  to the letters A..Z and to the accented capitals 192..222 (215, the multiplication
  sign, apart), and \<^verbatim>\<open>String.prototype.trim\<close> strips tab, line feed, vertical tab, form
  feed, carriage return, space and the no-break space 160 from both ends. The length
  checks of zod (\<^verbatim>\<open>min\<close>, \<^verbatim>\<open>max\<close>) count code units, that is \<^const>\<open>length\<close>.
\<close>

definition lowerChar :: "char \<Rightarrow> char" where
  "lowerChar c =
     (let n = (of_char c :: nat)
      in if (65 \<le> n \<and> n \<le> 90) \<or> (192 \<le> n \<and> n \<le> 222 \<and> n \<noteq> 215)
         then char_of (n + 32) else c)"

definition toLowerCase :: "string \<Rightarrow> string" where
  "toLowerCase s = map lowerChar s"

definition isWhiteSpace :: "char \<Rightarrow> bool" where
  "isWhiteSpace c = ((of_char c :: nat) \<in> set [9, 10, 11, 12, 13, 32, 160])"

definition trim :: "string \<Rightarrow> string" where
  "trim s = rev (dropWhile isWhiteSpace (rev (dropWhile isWhiteSpace s)))"

definition startsWith :: "string \<Rightarrow> string \<Rightarrow> bool" where
  "startsWith s p = (take (length p) s = p)"

text \<open>\<^verbatim>\<open>s.replace(pat, rep)\<close> with a string pattern: the first occurrence only.\<close>

fun replaceFirst :: "string \<Rightarrow> string \<Rightarrow> string \<Rightarrow> string" where
  "replaceFirst [] pat rep = (if pat = [] then rep else [])"
| "replaceFirst (c # cs) pat rep =
     (if take (length pat) (c # cs) = pat then rep @ drop (length pat) (c # cs)
      else c # replaceFirst cs pat rep)"

section \<open>JSON values and objects\<close>

text \<open>
  Request bodies, response bodies and the profiles built by object spread are JSON
  values. An object is the list of its own properties; reading a property that is
  absent, or a property of something that is not an object, gives \<^verbatim>\<open>undefined\<close>,
  here \<^const>\<open>None\<close>.
\<close>

datatype json =
    JNull
  | JBool bool
  | JNum int
  | JStr string
  | JArr "json list"
  | JObj "(string \<times> json) list"

definition getField :: "json \<Rightarrow> string \<Rightarrow> json option" where
  "getField j k = (case j of JObj kvs \<Rightarrow> map_of kvs k | _ \<Rightarrow> None)"

text \<open>\<^verbatim>\<open>const { k, ...rest } = obj\<close>: the rest has every own property but \<open>k\<close>.\<close>

definition omitKey :: "string \<Rightarrow> (string \<times> json) list \<Rightarrow> (string \<times> json) list" where
  "omitKey k kvs = filter (\<lambda>kv. fst kv \<noteq> k) kvs"

text \<open>\<^verbatim>\<open>{ ...obj, k: v }\<close>: \<open>k\<close> is overwritten where it stands, or added last.\<close>

fun setKey :: "string \<Rightarrow> json \<Rightarrow> (string \<times> json) list \<Rightarrow> (string \<times> json) list" where
  "setKey k v [] = [(k, v)]"
| "setKey k v (kv # kvs) = (if fst kv = k then (k, v) # kvs else kv # setKey k v kvs)"

text \<open>The keys of every object inside a JSON value, at any depth.\<close>

fun allKeys :: "json \<Rightarrow> string set" where
  "allKeys (JArr js) = (\<Union>j \<in> set js. allKeys j)"
| "allKeys (JObj kvs) = fst ` set kvs \<union> (\<Union>kv \<in> set kvs. allKeys (snd kv))"
| "allKeys _ = {}"

text \<open>\<^verbatim>\<open>Array.prototype.find\<close> returns a reference to the first match; the model
  returns its position, so that a later mutation of the found object is an update of
  the list at that position.\<close>

fun findIndex :: "('a \<Rightarrow> bool) \<Rightarrow> 'a list \<Rightarrow> nat option" where
  "findIndex P [] = None"
| "findIndex P (x # xs) = (if P x then Some 0 else map_option Suc (findIndex P xs))"

section \<open>Data model\<close>

datatype role = User | Admin

definition roleStr :: "role \<Rightarrow> string" where
  "roleStr r = (case r of User \<Rightarrow> ''user'' | Admin \<Rightarrow> ''admin'')"

text \<open>A task \<^verbatim>\<open>{ id, label, done, createdAt }\<close>.\<close>

record todo =
  id_t :: string
  label :: string
  done_t :: bool
  createdAt_t :: int

text \<open>
  An account as the data files hold it. The property \<^verbatim>\<open>todos\<close> may be missing from a
  record of the file (the handlers read it as \<^verbatim>\<open>user.todos || []\<close>); every account the
  service itself creates has it.
\<close>

record account =
  id_u :: string
  name :: string
  email :: string
  passwordHash :: string
  createdAt_u :: int
  role :: role
  todos :: "todo list option"

definition orEmpty :: "'a list option \<Rightarrow> 'a list" where
  "orEmpty xs = (case xs of None \<Rightarrow> [] | Some ys \<Rightarrow> ys)"

text \<open>The JSON objects of a task and of an account, as they are sent and as the
  object spread of \<^verbatim>\<open>scrubMember\<close> sees them. The properties are listed in the order
  of the literal in the registration handler; nothing depends on that order.\<close>

definition todoObj :: "todo \<Rightarrow> json" where
  "todoObj t = JObj [(''id'', JStr (id_t t)), (''label'', JStr (label t)),
     (''done'', JBool (done_t t)), (''createdAt'', JNum (createdAt_t t))]"

definition accountObj :: "account \<Rightarrow> (string \<times> json) list" where
  "accountObj u =
     [(''id'', JStr (id_u u)), (''name'', JStr (name u)), (''email'', JStr (email u)),
      (''passwordHash'', JStr (passwordHash u)), (''createdAt'', JNum (createdAt_u u)),
      (''role'', JStr (roleStr (role u)))]
     @ (case todos u of None \<Rightarrow> [] | Some ts \<Rightarrow> [(''todos'', JArr (map todoObj ts))])"

text \<open>A session \<^verbatim>\<open>{ userId, role, createdAt }\<close> of the in-memory registry.\<close>

record session =
  userId :: string
  role_s :: role
  createdAt_s :: int

text \<open>
  The state of the service: the two data files (\<^verbatim>\<open>users.json\<close>, \<^verbatim>\<open>admins.json\<close>), the
  session \<^verbatim>\<open>Map\<close> of the process, and a log with one entry per call of \<^verbatim>\<open>writeUsers\<close>
  or \<^verbatim>\<open>writeAdmins\<close>, naming the partition that was rewritten.
\<close>

record world =
  usersFile :: "account list"
  adminsFile :: "account list"
  sessions :: "string \<rightharpoonup> session"
  writeLog :: "role list"

definition readUsers :: "world \<Rightarrow> account list" where
  "readUsers w = usersFile w"

definition writeUsers :: "account list \<Rightarrow> world \<Rightarrow> world" where
  "writeUsers us w = w\<lparr>usersFile := us, writeLog := writeLog w @ [User]\<rparr>"

definition readAdmins :: "world \<Rightarrow> account list" where
  "readAdmins w = adminsFile w"

definition writeAdmins :: "account list \<Rightarrow> world \<Rightarrow> world" where
  "writeAdmins as w = w\<lparr>adminsFile := as, writeLog := writeLog w @ [Admin]\<rparr>"

text \<open>\<^verbatim>\<open>ensureFile\<close> materialises each partition as the empty list; a fresh process
  has no session.\<close>

definition emptyWorld :: world where
  "emptyWorld = \<lparr>usersFile = [], adminsFile = [], sessions = Map.empty, writeLog = []\<rparr>"

text \<open>
  What a handler draws from outside: the results of its calls of \<^verbatim>\<open>randomUUID()\<close>
  (the new record's id, the new token), of \<^verbatim>\<open>Date.now()\<close> (for the record, for the
  session) and the salt \<^verbatim>\<open>bcrypt.hash\<close> picks.
\<close>

record entropy =
  newId :: string
  newToken :: string
  clock :: int
  clock_s :: int
  salt :: string

text \<open>
  The libraries the service calls and whose code is not part of the repository:
  \<^verbatim>\<open>bcrypt.hash(password, 10)\<close> (with the salt it draws), \<^verbatim>\<open>bcrypt.compare\<close>, and the
  format check of \<^verbatim>\<open>z.string().email()\<close>. They are parameters of the model.
\<close>

record ext =
  bcryptHash :: "string \<Rightarrow> string \<Rightarrow> string"
  bcryptCompare :: "string \<Rightarrow> string \<Rightarrow> bool"
  isEmail :: "string \<Rightarrow> bool"

text \<open>The environment of the process: \<^verbatim>\<open>ADMIN_EMAIL\<close>, \<^verbatim>\<open>ADMIN_PASSWORD\<close>,
  \<^verbatim>\<open>ADMIN_NAME\<close>, each possibly unset.\<close>

record config =
  ADMIN_EMAIL :: "string option"
  ADMIN_PASSWORD :: "string option"
  ADMIN_NAME :: "string option"

text \<open>\<^verbatim>\<open>process.env.X || dflt\<close>: an unset or empty variable gives the default.\<close>

definition orDefault :: "string option \<Rightarrow> string \<Rightarrow> string" where
  "orDefault v dflt = (case v of None \<Rightarrow> dflt | Some s \<Rightarrow> if s = [] then dflt else s)"

section \<open>Responses\<close>

record response =
  status :: nat
  body :: "json option"

definition message :: "nat \<Rightarrow> string \<Rightarrow> response" where
  "message code m = \<lparr>status = code, body = Some (JObj [(''message'', JStr m)])\<rparr>"

definition scrubMember :: "(string \<times> json) list \<Rightarrow> (string \<times> json) list" where
  "scrubMember user = omitKey ''passwordHash'' user"

section \<open>Request validation (the zod schemas)\<close>

text \<open>\<^verbatim>\<open>z.string().min(lo).max(hi)\<close> on a property that may be absent or of another type.\<close>

definition zString :: "json option \<Rightarrow> nat \<Rightarrow> nat \<Rightarrow> string option" where
  "zString v lo hi =
     (case v of
        Some (JStr s) \<Rightarrow> if lo \<le> length s \<and> length s \<le> hi then Some s else None
      | _ \<Rightarrow> None)"

text \<open>\<^verbatim>\<open>z.string().email()\<close>.\<close>

definition zEmail :: "ext \<Rightarrow> json option \<Rightarrow> string option" where
  "zEmail X v = (case v of Some (JStr s) \<Rightarrow> if isEmail X s then Some s else None | _ \<Rightarrow> None)"

text \<open>\<^verbatim>\<open>z.enum(['user', 'admin']).optional()\<close>: the outer \<^const>\<open>None\<close> is a validation
  failure, \<^term>\<open>Some None\<close> an absent property.\<close>

definition zRole :: "json option \<Rightarrow> role option option" where
  "zRole v =
     (case v of
        None \<Rightarrow> Some None
      | Some (JStr s) \<Rightarrow>
          if s = ''user'' then Some (Some User)
          else if s = ''admin'' then Some (Some Admin) else None
      | _ \<Rightarrow> None)"

record registerPayload =
  name_p :: string
  email_p :: string
  password_p :: string

record loginPayload =
  email_l :: string
  password_l :: string

record adminCreateUserPayload = registerPayload +
  role_p :: "role option"

text \<open>Each \<^verbatim>\<open>schema.parse(req.body)\<close> returns the payload or throws a \<^verbatim>\<open>ZodError\<close>,
  here \<^const>\<open>None\<close>. A body that is not an object is refused.\<close>

definition registerSchema :: "ext \<Rightarrow> json \<Rightarrow> registerPayload option" where
  "registerSchema X b =
     (case b of
        JObj kvs \<Rightarrow>
          (case (zString (getField b ''name'') 2 40, zEmail X (getField b ''email''),
                 zString (getField b ''password'') 6 64) of
             (Some n, Some e, Some p) \<Rightarrow> Some \<lparr>name_p = n, email_p = e, password_p = p\<rparr>
           | _ \<Rightarrow> None)
      | _ \<Rightarrow> None)"

definition loginSchema :: "ext \<Rightarrow> json \<Rightarrow> loginPayload option" where
  "loginSchema X b =
     (case b of
        JObj kvs \<Rightarrow>
          (case (zEmail X (getField b ''email''), zString (getField b ''password'') 6 64) of
             (Some e, Some p) \<Rightarrow> Some \<lparr>email_l = e, password_l = p\<rparr>
           | _ \<Rightarrow> None)
      | _ \<Rightarrow> None)"

definition todoCreateSchema :: "json \<Rightarrow> string option" where
  "todoCreateSchema b =
     (case b of JObj kvs \<Rightarrow> zString (getField b ''label'') 1 140 | _ \<Rightarrow> None)"

definition adminCreateUserSchema :: "ext \<Rightarrow> json \<Rightarrow> adminCreateUserPayload option" where
  "adminCreateUserSchema X b =
     (case (registerSchema X b, zRole (getField b ''role'')) of
        (Some p, Some r) \<Rightarrow>
          Some \<lparr>name_p = name_p p, email_p = email_p p, password_p = password_p p, role_p = r\<rparr>
      | _ \<Rightarrow> None)"

section \<open>Sessions and the seed administrator\<close>

definition createSession :: "string \<Rightarrow> role \<Rightarrow> entropy \<Rightarrow> world \<Rightarrow> string \<times> world" where
  "createSession uid r e w =
     (let token = newToken e
      in (token,
          w\<lparr>sessions := (sessions w)(token \<mapsto>
               \<lparr>userId = uid, role_s = r, createdAt_s = clock_s e\<rparr>)\<rparr>))"

definition getSession :: "world \<Rightarrow> string \<Rightarrow> session option" where
  "getSession w token = sessions w token"

definition ensureSeedAdmin :: "ext \<Rightarrow> config \<Rightarrow> entropy \<Rightarrow> world \<Rightarrow> world" where
  "ensureSeedAdmin X cfg e w =
     (let adminEmail = toLowerCase (orDefault (ADMIN_EMAIL cfg) ''owner@winery.board'');
          adminPassword = orDefault (ADMIN_PASSWORD cfg) ''wineryadmin'';
          adminName = orDefault (ADMIN_NAME cfg) ''Builder'';
          admins = readAdmins w
      in if find (\<lambda>user. email user = adminEmail) admins \<noteq> None then w
         else
           let adminUser = \<lparr>id_u = newId e, name = adminName, email = adminEmail,
                 passwordHash = bcryptHash X adminPassword (salt e),
                 createdAt_u = clock e, role = Admin, todos = Some []\<rparr>
           in writeAdmins (admins @ [adminUser]) w)"

text \<open>A start of the process: the data files are those on disk, the session map is
  new, and \<^verbatim>\<open>bootstrap\<close> runs the seeder before the server listens.\<close>

definition bootstrap :: "ext \<Rightarrow> config \<Rightarrow> entropy \<Rightarrow> world \<Rightarrow> world" where
  "bootstrap X cfg e w = ensureSeedAdmin X cfg e (w\<lparr>sessions := Map.empty\<rparr>)"

section \<open>The authorization gate\<close>

text \<open>
  What \<^verbatim>\<open>requireAuth\<close> returns on success. In the source \<^verbatim>\<open>user\<close> is a reference to an
  element of \<^verbatim>\<open>list\<close>; here it is the element at \<open>pos\<close>, and assigning to
  \<^verbatim>\<open>auth.user.todos\<close> updates the list there.
\<close>

record auth =
  pos :: nat
  list_a :: "account list"
  writer :: "account list \<Rightarrow> world \<Rightarrow> world"
  token_a :: string
  role_a :: role

definition user :: "auth \<Rightarrow> account" where
  "user a = list_a a ! pos a"

definition setUserTodos :: "auth \<Rightarrow> todo list \<Rightarrow> auth" where
  "setUserTodos a ts = a\<lparr>list_a := (list_a a)[pos a := (user a)\<lparr>todos := Some ts\<rparr>]\<rparr>"

definition requireAuth :: "world \<Rightarrow> string option \<Rightarrow> bool \<Rightarrow> response + auth" where
  "requireAuth w authorization requireAdmin =
     (let authHeader = orDefault authorization []
      in if \<not> startsWith authHeader ''Bearer '' then Inl (message 401 ''missing-token'')
         else
           let token = replaceFirst authHeader ''Bearer '' []
           in case getSession w token of
                None \<Rightarrow> Inl (message 401 ''invalid-token'')
              | Some session \<Rightarrow>
                  let reader = (if role_s session = Admin then readAdmins else readUsers);
                      writer = (if role_s session = Admin then writeAdmins else writeUsers);
                      list = reader w
                  in (case findIndex (\<lambda>entry. id_u entry = userId session) list of
                        None \<Rightarrow> Inl (message 401 ''invalid-token'')
                      | Some i \<Rightarrow>
                          if requireAdmin \<and> role_s session \<noteq> Admin
                          then Inl (message 403 ''forbidden'')
                          else Inr \<lparr>pos = i,
                                 list_a = list[i := (list ! i)\<lparr>todos := Some (orEmpty (todos (list ! i)))\<rparr>],
                                 writer = writer, token_a = token, role_a = role_s session\<rparr>))"

section \<open>The request handlers\<close>

text \<open>Each handler takes the state and returns the response with the new state. A
  rejected request returns the state it was given.\<close>

definition profileOf :: "account \<Rightarrow> json" where
  "profileOf u = JObj (scrubMember (accountObj u))"

text \<open>\<^verbatim>\<open>POST /api/auth/register\<close>\<close>

definition register :: "ext \<Rightarrow> json \<Rightarrow> entropy \<Rightarrow> world \<Rightarrow> response \<times> world" where
  "register X b e w =
     (case registerSchema X b of
        None \<Rightarrow> (message 400 ''validation-error'', w)
      | Some payload \<Rightarrow>
          let users = readUsers w; admins = readAdmins w
          in if find (\<lambda>user. toLowerCase (email user) = toLowerCase (email_p payload)) users \<noteq> None
                \<or> find (\<lambda>admin. toLowerCase (email admin) = toLowerCase (email_p payload)) admins \<noteq> None
             then (message 409 ''email-in-use'', w)
             else
               let newUser = \<lparr>id_u = newId e, name = trim (name_p payload),
                     email = toLowerCase (email_p payload),
                     passwordHash = bcryptHash X (password_p payload) (salt e),
                     createdAt_u = clock e, role = User, todos = Some []\<rparr>;
                   w1 = writeUsers (users @ [newUser]) w;
                   (token, w2) = createSession (id_u newUser) User e w1
               in (\<lparr>status = 201,
                    body = Some (JObj [(''token'', JStr token), (''profile'', profileOf newUser)])\<rparr>,
                   w2))"

text \<open>\<^verbatim>\<open>POST /api/auth/login\<close>: the users partition is searched first.\<close>

definition findForLogin :: "world \<Rightarrow> string \<Rightarrow> (account \<times> role) option" where
  "findForLogin w em =
     (case find (\<lambda>entry. email entry = em) (readUsers w) of
        Some u \<Rightarrow> Some (u, User)
      | None \<Rightarrow>
          (case find (\<lambda>entry. email entry = em) (readAdmins w) of
             Some u \<Rightarrow> Some (u, Admin)
           | None \<Rightarrow> None))"

definition login :: "ext \<Rightarrow> json \<Rightarrow> entropy \<Rightarrow> world \<Rightarrow> response \<times> world" where
  "login X b e w =
     (case loginSchema X b of
        None \<Rightarrow> (message 400 ''validation-error'', w)
      | Some payload \<Rightarrow>
          (case findForLogin w (toLowerCase (email_l payload)) of
             None \<Rightarrow> (message 401 ''invalid-credentials'', w)
           | Some (u, r) \<Rightarrow>
               if \<not> bcryptCompare X (password_l payload) (passwordHash u)
               then (message 401 ''invalid-credentials'', w)
               else
                 let (token, w1) = createSession (id_u u) r e w
                 in (\<lparr>status = 200,
                      body = Some (JObj [(''token'', JStr token), (''profile'', profileOf u)])\<rparr>,
                     w1)))"

text \<open>\<^verbatim>\<open>GET /api/auth/session\<close>\<close>

definition getSessionRoute :: "string option \<Rightarrow> world \<Rightarrow> response \<times> world" where
  "getSessionRoute h w =
     (case requireAuth w h False of
        Inl r \<Rightarrow> (r, w)
      | Inr a \<Rightarrow> (\<lparr>status = 200, body = Some (JObj [(''profile'', profileOf (user a))])\<rparr>, w))"

text \<open>\<^verbatim>\<open>GET /api/todos\<close>\<close>

definition getTodos :: "string option \<Rightarrow> world \<Rightarrow> response \<times> world" where
  "getTodos h w =
     (case requireAuth w h False of
        Inl r \<Rightarrow> (r, w)
      | Inr a \<Rightarrow>
          (\<lparr>status = 200,
            body = Some (JObj [(''todos'', JArr (map todoObj (orEmpty (todos (user a)))))])\<rparr>, w))"

text \<open>\<^verbatim>\<open>POST /api/todos\<close>: the schema checks the label as sent; the task stores it
  trimmed.\<close>

definition postTodo :: "string option \<Rightarrow> json \<Rightarrow> entropy \<Rightarrow> world \<Rightarrow> response \<times> world" where
  "postTodo h b e w =
     (case requireAuth w h False of
        Inl r \<Rightarrow> (r, w)
      | Inr a \<Rightarrow>
          (case todoCreateSchema b of
             None \<Rightarrow> (message 400 ''validation-error'', w)
           | Some l \<Rightarrow>
               let t = \<lparr>id_t = newId e, label = trim l, done_t = False, createdAt_t = clock e\<rparr>;
                   a1 = setUserTodos a (t # orEmpty (todos (user a)))
               in (\<lparr>status = 201, body = Some (JObj [(''todo'', todoObj t)])\<rparr>,
                   writer a1 (list_a a1) w)))"

text \<open>\<^verbatim>\<open>PATCH /api/todos/:id\<close>: \<^verbatim>\<open>typeof req.body?.done === 'boolean'\<close> picks the value
  sent, anything else flips the flag.\<close>

definition patchTodo :: "string option \<Rightarrow> string \<Rightarrow> json \<Rightarrow> world \<Rightarrow> response \<times> world" where
  "patchTodo h i b w =
     (case requireAuth w h False of
        Inl r \<Rightarrow> (r, w)
      | Inr a \<Rightarrow>
          let ts = orEmpty (todos (user a))
          in (case findIndex (\<lambda>item. id_t item = i) ts of
                None \<Rightarrow> (message 404 ''not-found'', w)
              | Some k \<Rightarrow>
                  let t = (ts ! k)\<lparr>done_t :=
                            (case getField b ''done'' of
                               Some (JBool d) \<Rightarrow> d
                             | _ \<Rightarrow> \<not> done_t (ts ! k))\<rparr>;
                      a1 = setUserTodos a (ts[k := t])
                  in (\<lparr>status = 200, body = Some (JObj [(''todo'', todoObj t)])\<rparr>,
                      writer a1 (list_a a1) w)))"

text \<open>\<^verbatim>\<open>DELETE /api/todos/:id\<close>\<close>

definition deleteTodo :: "string option \<Rightarrow> string \<Rightarrow> world \<Rightarrow> response \<times> world" where
  "deleteTodo h i w =
     (case requireAuth w h False of
        Inl r \<Rightarrow> (r, w)
      | Inr a \<Rightarrow>
          let before = orEmpty (todos (user a));
              next = filter (\<lambda>item. id_t item \<noteq> i) before
          in if length next = length before then (message 404 ''not-found'', w)
             else
               let a1 = setUserTodos a next
               in (\<lparr>status = 204, body = None\<rparr>, writer a1 (list_a a1) w))"

text \<open>\<^verbatim>\<open>GET /api/admin/overview\<close>\<close>

definition overviewEntry :: "account \<Rightarrow> json" where
  "overviewEntry u =
     JObj (setKey ''todos'' (JArr (map todoObj (orEmpty (todos u)))) (scrubMember (accountObj u)))"

definition adminOverview :: "string option \<Rightarrow> world \<Rightarrow> response \<times> world" where
  "adminOverview h w =
     (case requireAuth w h True of
        Inl r \<Rightarrow> (r, w)
      | Inr a \<Rightarrow>
          (\<lparr>status = 200,
            body = Some (JObj [(''users'', JArr (map overviewEntry (readUsers w))),
                               (''admins'', JArr (map overviewEntry (readAdmins w)))])\<rparr>, w))"

text \<open>\<^verbatim>\<open>POST /api/admin/users\<close>: the stored emails are compared as they are with the
  lower-cased email of the request.\<close>

definition adminCreateUser ::
  "ext \<Rightarrow> string option \<Rightarrow> json \<Rightarrow> entropy \<Rightarrow> world \<Rightarrow> response \<times> world" where
  "adminCreateUser X h b e w =
     (case requireAuth w h True of
        Inl r \<Rightarrow> (r, w)
      | Inr a \<Rightarrow>
          (case adminCreateUserSchema X b of
             None \<Rightarrow> (message 400 ''validation-error'', w)
           | Some payload \<Rightarrow>
               let em = toLowerCase (email_p payload);
                   users = readUsers w; admins = readAdmins w
               in if find (\<lambda>user. email user = em) users \<noteq> None
                     \<or> find (\<lambda>admin. email admin = em) admins \<noteq> None
                  then (message 409 ''email-in-use'', w)
                  else
                    let newUser = \<lparr>id_u = newId e, name = trim (name_p payload), email = em,
                          passwordHash = bcryptHash X (password_p payload) (salt e),
                          createdAt_u = clock e,
                          role = (case role_p payload of None \<Rightarrow> User | Some r \<Rightarrow> r),
                          todos = Some []\<rparr>;
                        w1 = (if role newUser = Admin then writeAdmins (admins @ [newUser]) w
                              else writeUsers (users @ [newUser]) w)
                    in (\<lparr>status = 201, body = Some (JObj [(''profile'', profileOf newUser)])\<rparr>,
                        w1)))"

section \<open>Runs of the service\<close>

datatype request =
    Register json entropy
  | Login json entropy
  | GetSession "string option"
  | GetTodos "string option"
  | PostTodo "string option" json entropy
  | PatchTodo "string option" string json
  | DeleteTodo "string option" string
  | AdminOverview "string option"
  | AdminCreateUser "string option" json entropy

fun handle :: "ext \<Rightarrow> request \<Rightarrow> world \<Rightarrow> response \<times> world" where
  "handle X (Register b e) w = register X b e w"
| "handle X (Login b e) w = login X b e w"
| "handle X (GetSession h) w = getSessionRoute h w"
| "handle X (GetTodos h) w = getTodos h w"
| "handle X (PostTodo h b e) w = postTodo h b e w"
| "handle X (PatchTodo h i b) w = patchTodo h i b w"
| "handle X (DeleteTodo h i) w = deleteTodo h i w"
| "handle X (AdminOverview h) w = adminOverview h w"
| "handle X (AdminCreateUser h b e) w = adminCreateUser X h b e w"

text \<open>
  The states the service can be in: the process starts on the empty data files,
  then serves requests one after the other, and may be started again at any time,
  with whatever environment it is given then.
\<close>

inductive reachable :: "ext \<Rightarrow> world \<Rightarrow> bool" for X :: ext where
  boot: "reachable X (bootstrap X cfg e emptyWorld)"
| serve: "reachable X w \<Longrightarrow> reachable X (snd (handle X req w))"
| restart: "reachable X w \<Longrightarrow> reachable X (bootstrap X cfg e w)"

section \<open>The two halves of a task creation\<close>

text \<open>
  \<^verbatim>\<open>POST /api/todos\<close> suspends twice: at \<^verbatim>\<open>await reader()\<close> inside \<^verbatim>\<open>requireAuth\<close>, where
  the partition is read, and at \<^verbatim>\<open>await auth.writer(auth.list)\<close>, where the list built
  from that reading is written back. Between the two, the handlers of other requests
  may run. The first half is everything up to the call of the writer: it reads the
  state and leaves the write to be done; the second half does the write and sends
  the response. The handler as one piece is the second half run on the state the
  first half read.
\<close>

record pendingWrite =
  pw_writer :: "account list \<Rightarrow> world \<Rightarrow> world"
  pw_list :: "account list"
  pw_todo :: todo

definition postTodoRead ::
  "string option \<Rightarrow> json \<Rightarrow> entropy \<Rightarrow> world \<Rightarrow> response + pendingWrite" where
  "postTodoRead h b e w =
     (case requireAuth w h False of
        Inl r \<Rightarrow> Inl r
      | Inr a \<Rightarrow>
          (case todoCreateSchema b of
             None \<Rightarrow> Inl (message 400 ''validation-error'')
           | Some l \<Rightarrow>
               let t = \<lparr>id_t = newId e, label = trim l, done_t = False, createdAt_t = clock e\<rparr>;
                   a1 = setUserTodos a (t # orEmpty (todos (user a)))
               in Inr \<lparr>pw_writer = writer a1, pw_list = list_a a1, pw_todo = t\<rparr>))"

definition postTodoWrite :: "pendingWrite \<Rightarrow> world \<Rightarrow> response \<times> world" where
  "postTodoWrite p w =
     (\<lparr>status = 201, body = Some (JObj [(''todo'', todoObj (pw_todo p))])\<rparr>,
      pw_writer p (pw_list p) w)"

text \<open>Two creation requests of one caller, both read before either writes: the
  responses and the final state, when both pass the gate and the schema.\<close>

definition readReadWriteWrite ::
  "string option \<Rightarrow> json \<Rightarrow> entropy \<Rightarrow> json \<Rightarrow> entropy \<Rightarrow> world
     \<Rightarrow> (response \<times> response \<times> world) option" where
  "readReadWriteWrite h b1 e1 b2 e2 w =
     (case (postTodoRead h b1 e1 w, postTodoRead h b2 e2 w) of
        (Inr p1, Inr p2) \<Rightarrow>
          let (r1, w1) = postTodoWrite p1 w;
              (r2, w2) = postTodoWrite p2 w1
          in Some (r1, r2, w2)
      | _ \<Rightarrow> None)"

text \<open>Creation requests of one caller served one after the other.\<close>

definition createAll :: "string option \<Rightarrow> (json \<times> entropy) list \<Rightarrow> world \<Rightarrow> world" where
  "createAll h reqs w = foldl (\<lambda>v (b, e). snd (postTodo h b e v)) w reqs"

text \<open>The task a valid creation request builds.\<close>

definition newTodo :: "json \<times> entropy \<Rightarrow> todo" where
  "newTodo be =
     \<lparr>id_t = newId (snd be), label = trim (orEmpty (todoCreateSchema (fst be))),
      done_t = False, createdAt_t = clock (snd be)\<rparr>"

section \<open>Notions used by the statements\<close>

text \<open>The partition a role selects, as \<^verbatim>\<open>requireAuth\<close> picks its reader and its writer.\<close>

definition readPartition :: "role \<Rightarrow> world \<Rightarrow> account list" where
  "readPartition r w = (if r = Admin then readAdmins w else readUsers w)"

definition writePartition :: "role \<Rightarrow> account list \<Rightarrow> world \<Rightarrow> world" where
  "writePartition r = (if r = Admin then writeAdmins else writeUsers)"

text \<open>The state after the caller's partition was written back with the caller's task
  list replaced by \<open>ts\<close>: no other account, no other field, the other partition and the
  sessions stay as they were, and the write is logged.\<close>

definition withTodos :: "auth \<Rightarrow> todo list \<Rightarrow> world \<Rightarrow> world" where
  "withTodos a ts w =
     writePartition (role_a a)
       ((readPartition (role_a a) w)[pos a := (readPartition (role_a a) w ! pos a)\<lparr>todos := Some ts\<rparr>])
       w"

text \<open>The position of the first task with a given id, which is the task
  \<^verbatim>\<open>todos.find((item) => item.id === id)\<close> returns.\<close>

definition firstWithId :: "string \<Rightarrow> todo list \<Rightarrow> nat \<Rightarrow> bool" where
  "firstWithId i ts k = (k < length ts \<and> id_t (ts ! k) = i \<and> (\<forall>j<k. id_t (ts ! j) \<noteq> i))"

definition setDone :: "nat \<Rightarrow> bool \<Rightarrow> todo list \<Rightarrow> todo list" where
  "setDone k v ts = ts[k := (ts ! k)\<lparr>done_t := v\<rparr>]"

text \<open>No object inside a response body has a property named \<^verbatim>\<open>passwordHash\<close>.\<close>

definition hashFree :: "response \<Rightarrow> bool" where
  "hashFree r = (case body r of None \<Rightarrow> True | Some j \<Rightarrow> ''passwordHash'' \<notin> allKeys j)"

text \<open>A property of the \<^verbatim>\<open>profile\<close> object of a response body.\<close>

definition profileField :: "response \<Rightarrow> string \<Rightarrow> json option" where
  "profileField r k =
     (case body r of
        None \<Rightarrow> None
      | Some j \<Rightarrow> (case getField j ''profile'' of None \<Rightarrow> None | Some p \<Rightarrow> getField p k))"

text \<open>The body of a login request.\<close>

definition loginBody :: "string \<Rightarrow> string \<Rightarrow> json" where
  "loginBody em pw = JObj [(''email'', JStr em), (''password'', JStr pw)]"

text \<open>The password verifier only has to accept the hashes it derived.\<close>

definition verifierSound :: "ext \<Rightarrow> bool" where
  "verifierSound X = (\<forall>pw s. bcryptCompare X pw (bcryptHash X pw s))"

text \<open>Every stored email is its own lower-case form.\<close>

definition lowerCased :: "account list \<Rightarrow> bool" where
  "lowerCased us = list_all (\<lambda>u. toLowerCase (email u) = email u) us"

definition emailsLower :: "world \<Rightarrow> bool" where
  "emailsLower w = (lowerCased (usersFile w) \<and> lowerCased (adminsFile w))"

text \<open>No two accounts of the two partitions share an email up to letter case.\<close>

definition emailsUnique :: "world \<Rightarrow> bool" where
  "emailsUnique w = distinct (map (\<lambda>u. toLowerCase (email u)) (usersFile w @ adminsFile w))"

text \<open>The emails of the two partitions, in file order.\<close>

definition emailsOf :: "world \<Rightarrow> string list \<times> string list" where
  "emailsOf w = (map email (usersFile w), map email (adminsFile w))"

text \<open>The seed email the process reads from its environment.\<close>

definition seedEmail :: "config \<Rightarrow> string" where
  "seedEmail cfg = toLowerCase (orDefault (ADMIN_EMAIL cfg) ''owner@winery.board'')"

text \<open>The states the service can get to from a given state: any number of requests
  and of starts of the process, with whatever environment.\<close>

inductive runsTo :: "ext \<Rightarrow> world \<Rightarrow> world \<Rightarrow> bool" for X :: ext and w :: world where
  here: "runsTo X w w"
| serve: "runsTo X w w1 \<Longrightarrow> runsTo X w (snd (handle X req w1))"
| restart: "runsTo X w w1 \<Longrightarrow> runsTo X w (bootstrap X cfg e w1)"

text \<open>The states the service reaches when every start of the process is given the
  same environment.\<close>

inductive reachableWith :: "ext \<Rightarrow> config \<Rightarrow> world \<Rightarrow> bool" for X :: ext and cfg :: config where
  boot: "reachableWith X cfg (bootstrap X cfg e emptyWorld)"
| serve: "reachableWith X cfg w \<Longrightarrow> reachableWith X cfg (snd (handle X req w))"
| restart: "reachableWith X cfg w \<Longrightarrow> reachableWith X cfg (bootstrap X cfg e w)"

section \<open>A concrete run\<close>

text \<open>
  Stand-ins for the libraries (the hash is the salt followed by the password, an
  email is a string with an at sign) and one run of the service: start on empty
  files with the default environment, register Ada, log the seeded administrator
  in, let Ada create a task, and start the process again with Ada's email as the
  seed email.
\<close>

definition demoExt :: ext where
  "demoExt =
     \<lparr>bcryptHash = (\<lambda>pw s. s @ pw),
      bcryptCompare = (\<lambda>pw h. length pw \<le> length h \<and> drop (length h - length pw) h = pw),
      isEmail = (\<lambda>s. CHR ''@'' \<in> set s)\<rparr>"

definition demoEntropy :: "string \<Rightarrow> string \<Rightarrow> entropy" where
  "demoEntropy i t =
     \<lparr>newId = i, newToken = t, clock = 1000, clock_s = 1001, salt = ''$2a$10$''\<rparr>"

definition demoConfig :: config where
  "demoConfig = \<lparr>ADMIN_EMAIL = None, ADMIN_PASSWORD = None, ADMIN_NAME = None\<rparr>"

definition adaSeedConfig :: config where
  "adaSeedConfig = \<lparr>ADMIN_EMAIL = Some ''ada@x.com'', ADMIN_PASSWORD = None, ADMIN_NAME = None\<rparr>"

definition adaBody :: json where
  "adaBody = JObj [(''name'', JStr ''Ada''), (''email'', JStr ''Ada@X.com''),
     (''password'', JStr ''secret1'')]"

definition ownerBody :: json where
  "ownerBody = JObj [(''email'', JStr ''Owner@Winery.Board''), (''password'', JStr ''wineryadmin'')]"

definition milkBody :: json where
  "milkBody = JObj [(''label'', JStr ''  buy milk  '')]"

definition blankBody :: json where
  "blankBody = JObj [(''label'', JStr ''   '')]"

definition teaBody :: json where
  "teaBody = JObj [(''label'', JStr ''tea'')]"

definition jamBody :: json where
  "jamBody = JObj [(''label'', JStr ''jam'')]"

definition demo0 :: world where
  "demo0 = bootstrap demoExt demoConfig (demoEntropy ''id-0'' ''tok-0'') emptyWorld"

definition demo1 :: world where
  "demo1 = snd (handle demoExt (Register adaBody (demoEntropy ''id-1'' ''tok-1'')) demo0)"

definition demo2 :: world where
  "demo2 = snd (handle demoExt (Login ownerBody (demoEntropy ''id-2'' ''tok-2'')) demo1)"

definition demo3 :: world where
  "demo3 = snd (handle demoExt
     (PostTodo (Some ''Bearer tok-1'') milkBody (demoEntropy ''id-3'' ''tok-3'')) demo2)"

definition demo4 :: world where
  "demo4 = bootstrap demoExt adaSeedConfig (demoEntropy ''id-7'' ''tok-7'') demo3"

text \<open>The accounts, the task and the sessions this run creates.\<close>

definition owner :: account where
  "owner = \<lparr>id_u = ''id-0'', name = ''Builder'', email = ''owner@winery.board'',
     passwordHash = ''$2a$10$wineryadmin'', createdAt_u = 1000, role = Admin, todos = Some []\<rparr>"

definition ada :: account where
  "ada = \<lparr>id_u = ''id-1'', name = ''Ada'', email = ''ada@x.com'',
     passwordHash = ''$2a$10$secret1'', createdAt_u = 1000, role = User, todos = Some []\<rparr>"

definition milk :: todo where
  "milk = \<lparr>id_t = ''id-3'', label = ''buy milk'', done_t = False, createdAt_t = 1000\<rparr>"

definition adaSession :: session where
  "adaSession = \<lparr>userId = ''id-1'', role_s = User, createdAt_s = 1001\<rparr>"

definition ownerSession :: session where
  "ownerSession = \<lparr>userId = ''id-0'', role_s = Admin, createdAt_s = 1001\<rparr>"

section \<open>Basic facts\<close>

lemma lowerChar_idem: "lowerChar (lowerChar c) = lowerChar c"
proof -
  have "(of_char c :: nat) < 256" by simp
  then show ?thesis by (auto simp: lowerChar_def Let_def)
qed

lemma toLowerCase_idem: "toLowerCase (toLowerCase s) = toLowerCase s"
  by (simp add: toLowerCase_def lowerChar_idem)

lemma findIndex_Some:
  "findIndex P xs = Some i \<Longrightarrow> i < length xs \<and> P (xs ! i) \<and> (\<forall>j<i. \<not> P (xs ! j))"
proof (induction xs arbitrary: i)
  case Nil
  then show ?case by simp
next
  case (Cons x xs)
  then show ?case by (auto split: if_splits nat.splits simp: nth_Cons)
qed

lemma findIndex_None: "findIndex P xs = None \<longleftrightarrow> (\<forall>x \<in> set xs. \<not> P x)"
  by (induction xs) auto

lemma replaceFirst_prefix: "p \<noteq> [] \<Longrightarrow> replaceFirst (p @ t) p [] = t"
  by (cases p) auto

lemma startsWith_iff: "startsWith s p \<longleftrightarrow> (\<exists>t. s = p @ t)"
  unfolding startsWith_def by (metis append_eq_conv_conj append_take_drop_id)

section \<open>The concrete run, evaluated\<close>

lemmas demo_defs = demoExt_def demoConfig_def demoEntropy_def adaBody_def ownerBody_def
  milkBody_def emptyWorld_def owner_def ada_def milk_def adaSession_def ownerSession_def

lemmas store_defs = readUsers_def readAdmins_def writeUsers_def writeAdmins_def
  readPartition_def writePartition_def

lemmas schema_defs = registerSchema_def loginSchema_def todoCreateSchema_def
  adminCreateUserSchema_def zString_def zEmail_def zRole_def getField_def

lemmas gate_defs = requireAuth_def orDefault_def startsWith_def getSession_def
  setUserTodos_def user_def orEmpty_def

lemma lower_ada: "toLowerCase ''Ada@X.com'' = ''ada@x.com''"
  by code_simp

lemma lower_owner: "toLowerCase ''owner@winery.board'' = ''owner@winery.board''"
  by code_simp

lemma lower_Owner: "toLowerCase ''Owner@Winery.Board'' = ''owner@winery.board''"
  by code_simp

lemma trim_Ada: "trim ''Ada'' = ''Ada''"
  by code_simp

lemma trim_milk: "trim ''  buy milk  '' = ''buy milk''"
  by code_simp

lemma demo0_eval:
  "demo0 = \<lparr>usersFile = [], adminsFile = [owner], sessions = Map.empty, writeLog = [Admin]\<rparr>"
  by (simp add: demo0_def bootstrap_def ensureSeedAdmin_def demo_defs store_defs orDefault_def
      lower_owner Let_def)

lemma demo1_eval:
  "demo1 = \<lparr>usersFile = [ada], adminsFile = [owner],
     sessions = [''tok-1'' \<mapsto> adaSession], writeLog = [Admin, User]\<rparr>"
  unfolding demo1_def demo0_eval
  by (simp add: register_def demo_defs store_defs schema_defs createSession_def lower_ada
      lower_owner trim_Ada Let_def)

lemma demo2_eval:
  "demo2 = \<lparr>usersFile = [ada], adminsFile = [owner],
     sessions = [''tok-1'' \<mapsto> adaSession, ''tok-2'' \<mapsto> ownerSession],
     writeLog = [Admin, User]\<rparr>"
  unfolding demo2_def demo1_eval
  by (simp add: login_def findForLogin_def demo_defs store_defs schema_defs createSession_def
      lower_Owner Let_def)

lemma demo3_eval:
  "demo3 = \<lparr>usersFile = [ada\<lparr>todos := Some [milk]\<rparr>], adminsFile = [owner],
     sessions = [''tok-1'' \<mapsto> adaSession, ''tok-2'' \<mapsto> ownerSession],
     writeLog = [Admin, User, User]\<rparr>"
  unfolding demo3_def demo2_eval
  by (simp add: postTodo_def gate_defs demo_defs store_defs schema_defs trim_milk Let_def)

lemma demo3_reachable: "reachable demoExt demo3"
  unfolding demo3_def demo2_def demo1_def demo0_def
  by (intro reachable.serve reachable.boot)

section \<open>The authorization gate\<close>

lemma requireAuth_missing:
  "\<not> startsWith (orDefault h []) ''Bearer '' \<Longrightarrow>
   requireAuth w h ra = Inl (message 401 ''missing-token'')"
  by (simp add: requireAuth_def Let_def)

lemma not_bearer:
  "(\<forall>t. h \<noteq> Some (''Bearer '' @ t)) \<Longrightarrow> \<not> startsWith (orDefault h []) ''Bearer ''"
  by (cases h) (auto simp: orDefault_def startsWith_iff)

lemma requireAuth_bearer:
  "requireAuth w (Some (''Bearer '' @ t)) ra =
     (case sessions w t of
        None \<Rightarrow> Inl (message 401 ''invalid-token'')
      | Some s \<Rightarrow>
         (case findIndex (\<lambda>entry. id_u entry = userId s) (readPartition (role_s s) w) of
            None \<Rightarrow> Inl (message 401 ''invalid-token'')
          | Some i \<Rightarrow>
              if ra \<and> role_s s \<noteq> Admin then Inl (message 403 ''forbidden'')
              else Inr \<lparr>pos = i,
                   list_a = (readPartition (role_s s) w)[i := (readPartition (role_s s) w ! i)
                     \<lparr>todos := Some (orEmpty (todos (readPartition (role_s s) w ! i)))\<rparr>],
                   writer = writePartition (role_s s), token_a = t, role_a = role_s s\<rparr>))"
proof -
  have a: "startsWith (''Bearer '' @ t) ''Bearer ''"
    by (simp add: startsWith_def)
  have b: "replaceFirst (''Bearer '' @ t) ''Bearer '' [] = t"
    by (rule replaceFirst_prefix) simp
  have c: "orDefault (Some (''Bearer '' @ t)) [] = ''Bearer '' @ t"
    by (simp add: orDefault_def)
  show ?thesis
    unfolding requireAuth_def c Let_def using a b
    by (simp add: getSession_def readPartition_def writePartition_def split: option.splits)
qed

lemma gate_session:
  assumes ses: "sessions w t = Some s" and part: "part = readPartition (role_s s) w"
  shows "if userId s \<notin> id_u ` set part
         then requireAuth w (Some (''Bearer '' @ t)) ra = Inl (message 401 ''invalid-token'')
         else if ra \<and> role_s s \<noteq> Admin
         then requireAuth w (Some (''Bearer '' @ t)) ra = Inl (message 403 ''forbidden'')
         else \<exists>a. requireAuth w (Some (''Bearer '' @ t)) ra = Inr a
                \<and> pos a < length part
                \<and> id_u (part ! pos a) = userId s
                \<and> (\<forall>j < pos a. id_u (part ! j) \<noteq> userId s)
                \<and> user a = (part ! pos a)\<lparr>todos := Some (orEmpty (todos (part ! pos a)))\<rparr>
                \<and> list_a a = part[pos a := user a]
                \<and> writer a = writePartition (role_s s)
                \<and> token_a a = t \<and> role_a a = role_s s"
proof -
  have eq: "requireAuth w (Some (''Bearer '' @ t)) ra =
     (case findIndex (\<lambda>entry. id_u entry = userId s) part of
        None \<Rightarrow> Inl (message 401 ''invalid-token'')
      | Some i \<Rightarrow>
          if ra \<and> role_s s \<noteq> Admin then Inl (message 403 ''forbidden'')
          else Inr \<lparr>pos = i,
                 list_a = part[i := (part ! i)\<lparr>todos := Some (orEmpty (todos (part ! i)))\<rparr>],
                 writer = writePartition (role_s s), token_a = t, role_a = role_s s\<rparr>)"
    unfolding requireAuth_bearer ses part by simp
  show ?thesis
  proof (cases "findIndex (\<lambda>entry. id_u entry = userId s) part")
    case None
    then have c: "userId s \<notin> id_u ` set part"
      by (auto simp: findIndex_None)
    show ?thesis unfolding if_P [OF c] eq None by simp
  next
    case (Some i)
    note fi = findIndex_Some [OF Some]
    then have mem: "\<not> userId s \<notin> id_u ` set part"
      by (metis imageI nth_mem)
    show ?thesis
    proof (cases "ra \<and> role_s s \<noteq> Admin")
      case True
      show ?thesis unfolding if_not_P [OF mem] if_P [OF True] eq Some by simp
    next
      case False
      show ?thesis
        unfolding if_not_P [OF mem] if_not_P [OF False] eq Some
        using fi by (simp add: user_def)
    qed
  qed
qed

text \<open>
  Claim C2. The gate answers 401 \<^verbatim>\<open>missing-token\<close> when the request carries no
  \<^verbatim>\<open>Authorization: Bearer ...\<close> header. For a bearer token \<open>t\<close> it answers 401
  \<^verbatim>\<open>invalid-token\<close> when the session map has no entry for \<open>t\<close>; otherwise it reads the
  partition of the session's role from the current state and answers 401
  \<^verbatim>\<open>invalid-token\<close> when no account of that partition has the session's account id;
  otherwise 403 \<^verbatim>\<open>forbidden\<close> when the administrator role is required and the session's
  role is not \<^verbatim>\<open>admin\<close>; otherwise it returns the first account of the partition with
  that id (its task list read as \<^verbatim>\<open>todos || []\<close>), the partition list holding it, and
  the writer of that partition.
\<close>

theorem requireAuth_taxonomy:
  "((\<forall>t. h \<noteq> Some (''Bearer '' @ t)) \<longrightarrow>
      requireAuth w h ra =
        Inl \<lparr>status = 401, body = Some (JObj [(''message'', JStr ''missing-token'')])\<rparr>)
   \<and> (h = Some (''Bearer '' @ t) \<longrightarrow>
        (case sessions w t of
           None \<Rightarrow> requireAuth w h ra =
             Inl \<lparr>status = 401, body = Some (JObj [(''message'', JStr ''invalid-token'')])\<rparr>
         | Some s \<Rightarrow>
             let part = readPartition (role_s s) w
             in if userId s \<notin> id_u ` set part
                then requireAuth w h ra =
                  Inl \<lparr>status = 401, body = Some (JObj [(''message'', JStr ''invalid-token'')])\<rparr>
                else if ra \<and> role_s s \<noteq> Admin
                then requireAuth w h ra =
                  Inl \<lparr>status = 403, body = Some (JObj [(''message'', JStr ''forbidden'')])\<rparr>
                else \<exists>a. requireAuth w h ra = Inr a
                       \<and> pos a < length part
                       \<and> id_u (part ! pos a) = userId s
                       \<and> (\<forall>j < pos a. id_u (part ! j) \<noteq> userId s)
                       \<and> user a = (part ! pos a)\<lparr>todos := Some (orEmpty (todos (part ! pos a)))\<rparr>
                       \<and> list_a a = part[pos a := user a]
                       \<and> writer a = writePartition (role_s s)
                       \<and> token_a a = t \<and> role_a a = role_s s))"
proof (intro conjI impI)
  assume "\<forall>t. h \<noteq> Some (''Bearer '' @ t)"
  then show "requireAuth w h ra =
      Inl \<lparr>status = 401, body = Some (JObj [(''message'', JStr ''missing-token'')])\<rparr>"
    using requireAuth_missing [OF not_bearer] by (simp add: message_def)
next
  assume h: "h = Some (''Bearer '' @ t)"
  show "case sessions w t of
           None \<Rightarrow> requireAuth w h ra =
             Inl \<lparr>status = 401, body = Some (JObj [(''message'', JStr ''invalid-token'')])\<rparr>
         | Some s \<Rightarrow>
             let part = readPartition (role_s s) w
             in if userId s \<notin> id_u ` set part
                then requireAuth w h ra =
                  Inl \<lparr>status = 401, body = Some (JObj [(''message'', JStr ''invalid-token'')])\<rparr>
                else if ra \<and> role_s s \<noteq> Admin
                then requireAuth w h ra =
                  Inl \<lparr>status = 403, body = Some (JObj [(''message'', JStr ''forbidden'')])\<rparr>
                else \<exists>a. requireAuth w h ra = Inr a
                       \<and> pos a < length part
                       \<and> id_u (part ! pos a) = userId s
                       \<and> (\<forall>j < pos a. id_u (part ! j) \<noteq> userId s)
                       \<and> user a = (part ! pos a)\<lparr>todos := Some (orEmpty (todos (part ! pos a)))\<rparr>
                       \<and> list_a a = part[pos a := user a]
                       \<and> writer a = writePartition (role_s s)
                       \<and> token_a a = t \<and> role_a a = role_s s"
  proof (cases "sessions w t")
    case None
    then show ?thesis unfolding h requireAuth_bearer by (simp add: message_def)
  next
    case (Some s)
    show ?thesis
      unfolding h Some option.case Let_def
      using gate_session [OF Some refl, of ra] unfolding message_def .
  qed
qed

theorem requireAuth_taxonomy_witness:
  "requireAuth demo3 None False =
     Inl \<lparr>status = 401, body = Some (JObj [(''message'', JStr ''missing-token'')])\<rparr>
   \<and> requireAuth demo3 (Some (''Bearer '' @ ''tok-9'')) False =
     Inl \<lparr>status = 401, body = Some (JObj [(''message'', JStr ''invalid-token'')])\<rparr>
   \<and> requireAuth (demo3\<lparr>usersFile := []\<rparr>) (Some (''Bearer '' @ ''tok-1'')) False =
     Inl \<lparr>status = 401, body = Some (JObj [(''message'', JStr ''invalid-token'')])\<rparr>
   \<and> requireAuth demo3 (Some (''Bearer '' @ ''tok-1'')) True =
     Inl \<lparr>status = 403, body = Some (JObj [(''message'', JStr ''forbidden'')])\<rparr>
   \<and> (\<exists>a. requireAuth demo3 (Some (''Bearer '' @ ''tok-1'')) False = Inr a
          \<and> pos a = 0 \<and> user a = ada\<lparr>todos := Some [milk]\<rparr>
          \<and> list_a a = [ada\<lparr>todos := Some [milk]\<rparr>] \<and> writer a = writeUsers
          \<and> token_a a = ''tok-1'' \<and> role_a a = User)
   \<and> (\<exists>a. requireAuth demo3 (Some (''Bearer '' @ ''tok-2'')) True = Inr a
          \<and> pos a = 0 \<and> user a = owner \<and> list_a a = [owner] \<and> writer a = writeAdmins
          \<and> token_a a = ''tok-2'' \<and> role_a a = Admin)"
proof (intro conjI)
  show "requireAuth demo3 None False =
     Inl \<lparr>status = 401, body = Some (JObj [(''message'', JStr ''missing-token'')])\<rparr>"
    using requireAuth_taxonomy [where h = None and w = demo3 and ra = False] by simp
  show "requireAuth demo3 (Some (''Bearer '' @ ''tok-9'')) False =
     Inl \<lparr>status = 401, body = Some (JObj [(''message'', JStr ''invalid-token'')])\<rparr>"
    using requireAuth_taxonomy [where h = "Some (''Bearer '' @ ''tok-9'')" and t = "''tok-9''" and w = "demo3" and ra = False]
    by (simp add: demo3_eval)
  show "requireAuth (demo3\<lparr>usersFile := []\<rparr>) (Some (''Bearer '' @ ''tok-1'')) False =
     Inl \<lparr>status = 401, body = Some (JObj [(''message'', JStr ''invalid-token'')])\<rparr>"
    using requireAuth_taxonomy [where h = "Some (''Bearer '' @ ''tok-1'')" and t = "''tok-1''"
        and w = "demo3\<lparr>usersFile := []\<rparr>" and ra = False]
    by (simp add: demo3_eval store_defs adaSession_def)
  show "requireAuth demo3 (Some (''Bearer '' @ ''tok-1'')) True =
     Inl \<lparr>status = 403, body = Some (JObj [(''message'', JStr ''forbidden'')])\<rparr>"
    using requireAuth_taxonomy [where h = "Some (''Bearer '' @ ''tok-1'')" and t = "''tok-1''" and w = "demo3" and ra = True]
    by (simp add: demo3_eval store_defs adaSession_def ada_def)
  show "\<exists>a. requireAuth demo3 (Some (''Bearer '' @ ''tok-1'')) False = Inr a
          \<and> pos a = 0 \<and> user a = ada\<lparr>todos := Some [milk]\<rparr>
          \<and> list_a a = [ada\<lparr>todos := Some [milk]\<rparr>] \<and> writer a = writeUsers
          \<and> token_a a = ''tok-1'' \<and> role_a a = User"
    using requireAuth_taxonomy [where h = "Some (''Bearer '' @ ''tok-1'')" and t = "''tok-1''" and w = "demo3" and ra = False]
    by (auto simp add: demo3_eval store_defs adaSession_def ada_def orEmpty_def Let_def)
  show "\<exists>a. requireAuth demo3 (Some (''Bearer '' @ ''tok-2'')) True = Inr a
          \<and> pos a = 0 \<and> user a = owner \<and> list_a a = [owner] \<and> writer a = writeAdmins
          \<and> token_a a = ''tok-2'' \<and> role_a a = Admin"
    using requireAuth_taxonomy [where h = "Some (''Bearer '' @ ''tok-2'')" and t = "''tok-2''" and w = "demo3" and ra = True]
    by (auto simp add: demo3_eval store_defs ownerSession_def owner_def orEmpty_def Let_def)
qed

section \<open>What an authenticated handler works on\<close>

lemma requireAuth_InrD:
  assumes "requireAuth w h ra = Inr a"
  shows "h = Some (''Bearer '' @ token_a a)
    \<and> (\<exists>s. sessions w (token_a a) = Some s \<and> role_s s = role_a a
          \<and> id_u (readPartition (role_a a) w ! pos a) = userId s
          \<and> (\<forall>j < pos a. id_u (readPartition (role_a a) w ! j) \<noteq> userId s)
          \<and> findIndex (\<lambda>entry. id_u entry = userId s) (readPartition (role_a a) w) = Some (pos a))
    \<and> pos a < length (readPartition (role_a a) w)
    \<and> user a = (readPartition (role_a a) w ! pos a)
         \<lparr>todos := Some (orEmpty (todos (readPartition (role_a a) w ! pos a)))\<rparr>
    \<and> list_a a = (readPartition (role_a a) w)[pos a := user a]
    \<and> writer a = writePartition (role_a a)
    \<and> (ra \<longrightarrow> role_a a = Admin)"
proof -
  have sw: "startsWith (orDefault h []) ''Bearer ''"
    using assms requireAuth_missing [of h w ra] by auto
  then obtain t where t: "orDefault h [] = ''Bearer '' @ t"
    by (auto simp: startsWith_iff)
  then have h: "h = Some (''Bearer '' @ t)"
    by (cases h) (auto simp: orDefault_def split: if_splits)
  from assms have r: "requireAuth w (Some (''Bearer '' @ t)) ra = Inr a"
    by (simp add: h)
  then obtain s where s: "sessions w t = Some s"
    unfolding requireAuth_bearer by (cases "sessions w t") auto
  from r obtain i where i: "findIndex (\<lambda>entry. id_u entry = userId s) (readPartition (role_s s) w) = Some i"
    unfolding requireAuth_bearer s option.case
    by (cases "findIndex (\<lambda>entry. id_u entry = userId s) (readPartition (role_s s) w)") auto
  from r have ra: "\<not> (ra \<and> role_s s \<noteq> Admin)"
    unfolding requireAuth_bearer s i option.case by (auto split: if_splits)
  from r have a: "a = \<lparr>pos = i,
                   list_a = (readPartition (role_s s) w)[i := (readPartition (role_s s) w ! i)
                     \<lparr>todos := Some (orEmpty (todos (readPartition (role_s s) w ! i)))\<rparr>],
                   writer = writePartition (role_s s), token_a = t, role_a = role_s s\<rparr>"
    unfolding requireAuth_bearer s i option.case if_not_P [OF ra] by simp
  note fi = findIndex_Some [OF i]
  have 1: "token_a a = t" "role_a a = role_s s" "pos a = i" by (simp_all add: a)
  show ?thesis
    unfolding 1 using h s i fi ra by (simp add: a user_def)
qed

lemma writer_setUserTodos:
  assumes "requireAuth w h ra = Inr a"
  shows "writer (setUserTodos a ts) (list_a (setUserTodos a ts)) w = withTodos a ts w"
proof -
  note d = requireAuth_InrD [OF assms]
  have "list_a (setUserTodos a ts) = (readPartition (role_a a) w)[pos a := (readPartition (role_a a) w ! pos a)\<lparr>todos := Some ts\<rparr>]"
    using d by (simp add: setUserTodos_def)
  moreover have "writer (setUserTodos a ts) = writePartition (role_a a)"
    using d by (simp add: setUserTodos_def)
  ultimately show ?thesis by (simp add: withTodos_def)
qed


lemma findIndex_cong_map: "map P xs = map Q ys \<Longrightarrow> findIndex P xs = findIndex Q ys"
proof (induction xs arbitrary: ys)
  case Nil
  then show ?case by simp
next
  case (Cons x xs)
  then obtain y ys' where ys: "ys = y # ys'" by (cases ys) auto
  with Cons.prems have "P x = Q y" "map P xs = map Q ys'" by auto
  with Cons.IH [of ys'] show ?case by (simp add: ys)
qed

lemma map_update_same: "f y = f (xs ! i) \<Longrightarrow> map f (xs[i := y]) = map f xs"
proof (induction xs arbitrary: i)
  case Nil
  then show ?case by simp
next
  case (Cons x xs)
  then show ?case by (cases i) auto
qed

lemma readPartition_withTodos:
  "readPartition (role_a a) (withTodos a ts w) =
     (readPartition (role_a a) w)[pos a := (readPartition (role_a a) w ! pos a)\<lparr>todos := Some ts\<rparr>]"
  by (simp add: withTodos_def store_defs)

lemma withTodos_other:
  "r \<noteq> role_a a \<Longrightarrow> readPartition r (withTodos a ts w) = readPartition r w"
  by (cases r; cases "role_a a") (simp_all add: withTodos_def store_defs)

lemma sessions_withTodos: "sessions (withTodos a ts w) = sessions w"
  by (simp add: withTodos_def store_defs)

lemma writeLog_withTodos: "writeLog (withTodos a ts w) = writeLog w @ [role_a a]"
  by (cases "role_a a") (simp_all add: withTodos_def store_defs)

lemma requireAuth_withTodos:
  assumes "requireAuth w h ra = Inr a"
  shows "requireAuth (withTodos a ts w) h ra = Inr (a\<lparr>list_a := (list_a a)[pos a := (user a)\<lparr>todos := Some ts\<rparr>]\<rparr>)"
proof -
  note d = requireAuth_InrD [OF assms]
  from d obtain s where s: "sessions w (token_a a) = Some s" "role_s s = role_a a"
    "findIndex (\<lambda>entry. id_u entry = userId s) (readPartition (role_a a) w) = Some (pos a)"
    by blast
  let ?p = "readPartition (role_a a) w"
  let ?p' = "?p[pos a := (?p ! pos a)\<lparr>todos := Some ts\<rparr>]"
  have "map (\<lambda>entry. id_u entry = userId s) ?p' = map (\<lambda>entry. id_u entry = userId s) ?p"
    by (rule map_update_same) simp
  then have fi: "findIndex (\<lambda>entry. id_u entry = userId s) ?p' = Some (pos a)"
    using s(3) findIndex_cong_map by metis
  have h: "h = Some (''Bearer '' @ token_a a)" using d by simp
  have ra: "\<not> (ra \<and> role_s s \<noteq> Admin)" using d s(2) by simp
  have u: "user a = (?p ! pos a)\<lparr>todos := Some (orEmpty (todos (?p ! pos a)))\<rparr>"
    and l: "list_a a = ?p[pos a := user a]" and wr: "writer a = writePartition (role_a a)"
    and len: "pos a < length ?p"
    using d by simp_all
  have "requireAuth (withTodos a ts w) h ra =
      Inr \<lparr>pos = pos a, list_a = ?p'[pos a := (?p' ! pos a)\<lparr>todos := Some (orEmpty (todos (?p' ! pos a)))\<rparr>],
        writer = writePartition (role_a a), token_a = token_a a, role_a = role_a a\<rparr>"
    unfolding h requireAuth_bearer sessions_withTodos s(1) option.case s(2)
      readPartition_withTodos fi if_not_P [OF ra [unfolded s(2)]] ..
  also have "\<lparr>pos = pos a, list_a = ?p'[pos a := (?p' ! pos a)\<lparr>todos := Some (orEmpty (todos (?p' ! pos a)))\<rparr>],
        writer = writePartition (role_a a), token_a = token_a a, role_a = role_a a\<rparr>
      = a\<lparr>list_a := (list_a a)[pos a := (user a)\<lparr>todos := Some ts\<rparr>]\<rparr>"
    by (rule auth.equality) (simp_all add: l wr len u orEmpty_def)
  finally show ?thesis .
qed

lemma user_after_withTodos:
  assumes "requireAuth w h ra = Inr a"
  shows "\<exists>a'. requireAuth (withTodos a ts w) h ra = Inr a' \<and> pos a' = pos a \<and> role_a a' = role_a a
     \<and> token_a a' = token_a a \<and> user a' = (user a)\<lparr>todos := Some ts\<rparr>"
proof -
  have "pos a < length (list_a a)"
    using requireAuth_InrD [OF assms] by simp
  then show ?thesis
    unfolding requireAuth_withTodos [OF assms] by (simp add: user_def)
qed

lemma patchTodo_auth:
  assumes "requireAuth w h False = Inr a"
  shows "patchTodo h i b w =
     (let ts = orEmpty (todos (user a))
      in case findIndex (\<lambda>item. id_t item = i) ts of
           None \<Rightarrow> (message 404 ''not-found'', w)
         | Some k \<Rightarrow>
             let v = (case getField b ''done'' of Some (JBool d) \<Rightarrow> d | _ \<Rightarrow> \<not> done_t (ts ! k))
             in (\<lparr>status = 200, body = Some (JObj [(''todo'', todoObj ((ts ! k)\<lparr>done_t := v\<rparr>))])\<rparr>,
                 withTodos a (setDone k v ts) w))"
  by (simp add: patchTodo_def assms Let_def writer_setUserTodos [OF assms] setDone_def
      split: option.splits)

lemma deleteTodo_auth:
  assumes "requireAuth w h False = Inr a"
  shows "deleteTodo h i w =
     (let before = orEmpty (todos (user a)); next = filter (\<lambda>item. id_t item \<noteq> i) before
      in if length next = length before then (message 404 ''not-found'', w)
         else (\<lparr>status = 204, body = None\<rparr>, withTodos a next w))"
  by (simp add: deleteTodo_def assms Let_def writer_setUserTodos [OF assms])

lemma postTodo_auth:
  assumes "requireAuth w h False = Inr a"
  shows "postTodo h b e w =
     (case todoCreateSchema b of
        None \<Rightarrow> (message 400 ''validation-error'', w)
      | Some l \<Rightarrow>
          (\<lparr>status = 201, body = Some (JObj [(''todo'', todoObj \<lparr>id_t = newId e, label = trim l, done_t = False, createdAt_t = clock e\<rparr>)])\<rparr>,
           withTodos a (\<lparr>id_t = newId e, label = trim l, done_t = False, createdAt_t = clock e\<rparr> # orEmpty (todos (user a))) w))"
  by (simp add: postTodo_def assms Let_def writer_setUserTodos [OF assms] split: option.splits)

section \<open>Deleting a task that is not there\<close>

lemma filter_all_length: "length (filter P xs) = length xs \<longleftrightarrow> (\<forall>x \<in> set xs. P x)"
  by (metis filter_id_conv length_filter_less less_irrefl_nat)

text \<open>
  Claim C6. An authenticated \<^verbatim>\<open>DELETE /api/todos/:id\<close> whose id is the id of no task
  of the caller answers 404 \<^verbatim>\<open>not-found\<close> and returns the state it was given: the
  caller's task list and both partitions are as before, the write log has no new
  entry (neither \<^verbatim>\<open>writeUsers\<close> nor \<^verbatim>\<open>writeAdmins\<close> was called), and a following
  \<^verbatim>\<open>GET /api/todos\<close> answers as it would have before.
\<close>

theorem deleteTodo_miss:
  assumes "requireAuth w h False = Inr a"
    and "i \<notin> id_t ` set (orEmpty (todos (user a)))"
  shows "deleteTodo h i w =
           (\<lparr>status = 404, body = Some (JObj [(''message'', JStr ''not-found'')])\<rparr>, w)
         \<and> writeLog (snd (deleteTodo h i w)) = writeLog w
         \<and> getTodos h (snd (deleteTodo h i w)) = getTodos h w"
proof -
  have "length (filter (\<lambda>item. id_t item \<noteq> i) (orEmpty (todos (user a))))
      = length (orEmpty (todos (user a)))"
    using assms(2) by (auto simp: filter_all_length)
  then have "deleteTodo h i w = (message 404 ''not-found'', w)"
    by (simp add: deleteTodo_auth [OF assms(1)] Let_def)
  then show ?thesis by (simp add: message_def)
qed

theorem deleteTodo_miss_witness:
  "deleteTodo (Some ''Bearer tok-1'') ''id-9'' demo3 =
     (\<lparr>status = 404, body = Some (JObj [(''message'', JStr ''not-found'')])\<rparr>, demo3)
   \<and> writeLog (snd (deleteTodo (Some ''Bearer tok-1'') ''id-9'' demo3)) = [Admin, User, User]
   \<and> usersFile (snd (deleteTodo (Some ''Bearer tok-1'') ''id-9'' demo3)) = [ada\<lparr>todos := Some [milk]\<rparr>]"
proof -
  have a: "requireAuth demo3 (Some ''Bearer tok-1'') False =
    Inr \<lparr>pos = 0, list_a = [ada\<lparr>todos := Some [milk]\<rparr>], writer = writeUsers,
      token_a = ''tok-1'', role_a = User\<rparr>"
    by (simp add: demo3_eval gate_defs demo_defs store_defs Let_def)
  have b: "''id-9'' \<notin> id_t ` set (orEmpty (todos (user
     \<lparr>pos = 0, list_a = [ada\<lparr>todos := Some [milk]\<rparr>], writer = writeUsers,
      token_a = ''tok-1'', role_a = User\<rparr>)))"
    by (simp add: user_def orEmpty_def milk_def)
  show ?thesis
    using deleteTodo_miss [OF a b] by (simp add: demo3_eval)
qed

section \<open>Toggling a task\<close>

lemma firstWithId_findIndex:
  "firstWithId i ts k \<longleftrightarrow> findIndex (\<lambda>item. id_t item = i) ts = Some k"
proof
  assume "findIndex (\<lambda>item. id_t item = i) ts = Some k"
  then show "firstWithId i ts k"
    using findIndex_Some [of "\<lambda>item. id_t item = i" ts k] by (simp add: firstWithId_def)
next
  assume f: "firstWithId i ts k"
  then have "id_t (ts ! k) = i" "k < length ts" by (simp_all add: firstWithId_def)
  then have "\<not> (\<forall>x \<in> set ts. id_t x \<noteq> i)" by (metis nth_mem)
  then obtain k' where k': "findIndex (\<lambda>item. id_t item = i) ts = Some k'"
    using findIndex_None [of "\<lambda>item. id_t item = i" ts] by auto
  note fi = findIndex_Some [OF k']
  have "k' = k"
  proof (rule ccontr)
    assume "k' \<noteq> k"
    then consider "k' < k" | "k < k'" by linarith
    then show False using f fi by cases (auto simp: firstWithId_def)
  qed
  with k' show "findIndex (\<lambda>item. id_t item = i) ts = Some k" by simp
qed

lemma firstWithId_setDone: "firstWithId i (setDone k v ts) j \<longleftrightarrow> firstWithId i ts j"
proof -
  have "map (\<lambda>item. id_t item = i) (setDone k v ts) = map (\<lambda>item. id_t item = i) ts"
    unfolding setDone_def by (rule map_update_same) simp
  then show ?thesis
    unfolding firstWithId_findIndex using findIndex_cong_map by metis
qed

lemma setDone_idem: "setDone k v (setDone k v ts) = setDone k v ts"
  by (cases "k < length ts") (simp_all add: setDone_def not_less list_update_beyond)

lemma update_twice:
  "xs[i := ((xs[i := (xs ! i)\<lparr>todos := Some ts\<rparr>]) ! i)\<lparr>todos := Some ts\<rparr>]
     = xs[i := (xs ! i)\<lparr>todos := Some ts\<rparr>]"
  by (cases "i < length xs") (simp_all add: not_less list_update_beyond)

lemma withTodos_again:
  assumes "pos a' = pos a" "role_a a' = role_a a"
  shows "usersFile (withTodos a' ts (withTodos a ts w)) = usersFile (withTodos a ts w)
    \<and> adminsFile (withTodos a' ts (withTodos a ts w)) = adminsFile (withTodos a ts w)
    \<and> sessions (withTodos a' ts (withTodos a ts w)) = sessions (withTodos a ts w)"
proof (cases "role_a a")
  case User
  then show ?thesis using assms by (simp add: withTodos_def store_defs update_twice)
next
  case Admin
  then show ?thesis using assms by (simp add: withTodos_def store_defs update_twice)
qed

lemma patchTodo_hit:
  assumes auth: "requireAuth w h False = Inr a" and k: "firstWithId i (orEmpty (todos (user a))) k"
  shows "patchTodo h i b w =
     (\<lparr>status = 200, body = Some (JObj [(''todo'', todoObj ((orEmpty (todos (user a)) ! k)
          \<lparr>done_t := (case getField b ''done'' of Some (JBool d) \<Rightarrow> d
                       | _ \<Rightarrow> \<not> done_t (orEmpty (todos (user a)) ! k))\<rparr>))])\<rparr>,
      withTodos a (setDone k (case getField b ''done'' of Some (JBool d) \<Rightarrow> d
                       | _ \<Rightarrow> \<not> done_t (orEmpty (todos (user a)) ! k)) (orEmpty (todos (user a)))) w)"
  using k unfolding firstWithId_findIndex patchTodo_auth [OF auth] Let_def by simp

lemma patchTodo_miss:
  assumes auth: "requireAuth w h False = Inr a" and k: "i \<notin> id_t ` set (orEmpty (todos (user a)))"
  shows "patchTodo h i b w = (message 404 ''not-found'', w)"
proof -
  have "findIndex (\<lambda>item. id_t item = i) (orEmpty (todos (user a))) = None"
    using k by (auto simp: findIndex_None)
  then show ?thesis unfolding patchTodo_auth [OF auth] Let_def by simp
qed


text \<open>
  Claim C5. Let the request be authenticated and \<open>ts\<close> be the caller's own task list.
  When no task of \<open>ts\<close> has the id, \<^verbatim>\<open>PATCH /api/todos/:id\<close> answers 404 \<^verbatim>\<open>not-found\<close>
  and changes nothing, whatever the other accounts hold. Otherwise let \<open>k\<close> be the
  position of the first task of \<open>ts\<close> with the id. A body with no \<^verbatim>\<open>done\<close> property
  answers 200 with the task's flag negated, and writes the caller's partition back
  with that one flag negated and nothing else changed; a body with \<^verbatim>\<open>done\<close> a boolean
  \<open>d\<close> does the same with the flag set to \<open>d\<close>; the following \<^verbatim>\<open>GET /api/todos\<close> of the
  caller returns the list with that flag set; and sending \<^verbatim>\<open>{done: true}\<close> a second time
  gives the same response and leaves both data files and the sessions as the first
  request left them.
\<close>

theorem patchTodo_toggle:
  assumes "requireAuth w h False = Inr a" and "ts = orEmpty (todos (user a))"
  shows "(i \<notin> id_t ` set ts \<longrightarrow>
            patchTodo h i b w =
              (\<lparr>status = 404, body = Some (JObj [(''message'', JStr ''not-found'')])\<rparr>, w))
       \<and> (\<forall>k. firstWithId i ts k \<longrightarrow>
            (getField b ''done'' = None \<longrightarrow>
               patchTodo h i b w =
                 (\<lparr>status = 200,
                   body = Some (JObj [(''todo'', todoObj ((ts ! k)\<lparr>done_t := \<not> done_t (ts ! k)\<rparr>))])\<rparr>,
                  withTodos a (setDone k (\<not> done_t (ts ! k)) ts) w))
          \<and> (\<forall>d. getField b ''done'' = Some (JBool d) \<longrightarrow>
               patchTodo h i b w =
                 (\<lparr>status = 200,
                   body = Some (JObj [(''todo'', todoObj ((ts ! k)\<lparr>done_t := d\<rparr>))])\<rparr>,
                  withTodos a (setDone k d ts) w))
          \<and> (\<forall>v. fst (getTodos h (withTodos a (setDone k v ts) w)) =
                 \<lparr>status = 200,
                  body = Some (JObj [(''todos'', JArr (map todoObj (setDone k v ts)))])\<rparr>)
          \<and> (let b1 = JObj [(''done'', JBool True)];
                  (r1, w1) = patchTodo h i b1 w;
                  (r2, w2) = patchTodo h i b1 w1
              in r2 = r1 \<and> usersFile w2 = usersFile w1 \<and> adminsFile w2 = adminsFile w1
                 \<and> sessions w2 = sessions w1))"
proof (intro conjI allI impI)
  assume "i \<notin> id_t ` set ts"
  then show "patchTodo h i b w =
      (\<lparr>status = 404, body = Some (JObj [(''message'', JStr ''not-found'')])\<rparr>, w)"
    using patchTodo_miss [OF assms(1)] by (simp add: assms(2) message_def)
next
  fix k
  assume "firstWithId i ts k" "getField b ''done'' = None"
  then show "patchTodo h i b w =
      (\<lparr>status = 200,
        body = Some (JObj [(''todo'', todoObj ((ts ! k)\<lparr>done_t := \<not> done_t (ts ! k)\<rparr>))])\<rparr>,
       withTodos a (setDone k (\<not> done_t (ts ! k)) ts) w)"
    using patchTodo_hit [OF assms(1), of i k b] by (simp add: assms(2))
next
  fix k d
  assume "firstWithId i ts k" "getField b ''done'' = Some (JBool d)"
  then show "patchTodo h i b w =
      (\<lparr>status = 200, body = Some (JObj [(''todo'', todoObj ((ts ! k)\<lparr>done_t := d\<rparr>))])\<rparr>,
       withTodos a (setDone k d ts) w)"
    using patchTodo_hit [OF assms(1), of i k b] by (simp add: assms(2))
next
  fix k v
  assume "firstWithId i ts k"
  obtain a' where a': "requireAuth (withTodos a (setDone k v ts) w) h False = Inr a'"
      "user a' = (user a)\<lparr>todos := Some (setDone k v ts)\<rparr>"
    using user_after_withTodos [OF assms(1)] by blast
  show "fst (getTodos h (withTodos a (setDone k v ts) w)) =
      \<lparr>status = 200, body = Some (JObj [(''todos'', JArr (map todoObj (setDone k v ts)))])\<rparr>"
    by (simp add: getTodos_def a' orEmpty_def)
next
  fix k
  assume k: "firstWithId i ts k"
  define b1 where "b1 = JObj [(''done'', JBool True)]"
  define ts1 where "ts1 = setDone k True ts"
  define w1 where "w1 = withTodos a ts1 w"
  have g: "getField b1 ''done'' = Some (JBool True)"
    by (simp add: b1_def getField_def)
  have p1: "patchTodo h i b1 w =
      (\<lparr>status = 200, body = Some (JObj [(''todo'', todoObj ((ts ! k)\<lparr>done_t := True\<rparr>))])\<rparr>, w1)"
    using patchTodo_hit [OF assms(1), of i k b1] k g by (simp add: assms(2) w1_def ts1_def)
  obtain a' where a': "requireAuth w1 h False = Inr a'" "pos a' = pos a" "role_a a' = role_a a"
      "user a' = (user a)\<lparr>todos := Some ts1\<rparr>"
    using user_after_withTodos [OF assms(1), of ts1] unfolding w1_def by blast
  have ts1: "orEmpty (todos (user a')) = ts1"
    by (simp add: a' orEmpty_def)
  have k1: "firstWithId i ts1 k"
    using k by (simp add: ts1_def firstWithId_setDone)
  have klen: "k < length ts" using k by (simp add: firstWithId_def)
  have p2: "patchTodo h i b1 w1 =
      (\<lparr>status = 200, body = Some (JObj [(''todo'', todoObj ((ts1 ! k)\<lparr>done_t := True\<rparr>))])\<rparr>,
       withTodos a' (setDone k True ts1) w1)"
    using patchTodo_hit [OF a'(1), of i k b1] k1 g by (simp add: ts1)
  have same: "ts1 ! k = (ts ! k)\<lparr>done_t := True\<rparr>"
    using klen by (simp add: ts1_def setDone_def)
  have idem: "setDone k True ts1 = ts1"
    by (simp add: ts1_def setDone_idem)
  have files: "usersFile (withTodos a' ts1 w1) = usersFile w1
      \<and> adminsFile (withTodos a' ts1 w1) = adminsFile w1
      \<and> sessions (withTodos a' ts1 w1) = sessions w1"
    unfolding w1_def by (rule withTodos_again [OF a'(2,3)])
  show "let b1 = JObj [(''done'', JBool True)];
            (r1, w1) = patchTodo h i b1 w;
            (r2, w2) = patchTodo h i b1 w1
        in r2 = r1 \<and> usersFile w2 = usersFile w1 \<and> adminsFile w2 = adminsFile w1
           \<and> sessions w2 = sessions w1"
    unfolding b1_def [symmetric] Let_def p1 prod.case p2
    by (simp add: same idem files)
qed


lemma demo3_ada_auth:
  "requireAuth demo3 (Some ''Bearer tok-1'') False =
    Inr \<lparr>pos = 0, list_a = [ada\<lparr>todos := Some [milk]\<rparr>], writer = writeUsers,
      token_a = ''tok-1'', role_a = User\<rparr>"
  by (simp add: demo3_eval gate_defs demo_defs store_defs Let_def)

lemma demo3_owner_auth:
  "requireAuth demo3 (Some ''Bearer tok-2'') False =
    Inr \<lparr>pos = 0, list_a = [owner], writer = writeAdmins, token_a = ''tok-2'', role_a = Admin\<rparr>"
  by (simp add: demo3_eval gate_defs demo_defs store_defs Let_def)

theorem patchTodo_toggle_witness:
  "patchTodo (Some ''Bearer tok-1'') ''id-3'' (JObj []) demo3 =
     (\<lparr>status = 200, body = Some (JObj [(''todo'', todoObj (milk\<lparr>done_t := True\<rparr>))])\<rparr>,
      demo3\<lparr>usersFile := [ada\<lparr>todos := Some [milk\<lparr>done_t := True\<rparr>]\<rparr>],
            writeLog := [Admin, User, User, User]\<rparr>)
   \<and> patchTodo (Some ''Bearer tok-1'') ''id-3'' (JObj [(''done'', JBool False)]) demo3 =
     (\<lparr>status = 200, body = Some (JObj [(''todo'', todoObj milk)])\<rparr>,
      demo3\<lparr>writeLog := [Admin, User, User, User]\<rparr>)
   \<and> patchTodo (Some ''Bearer tok-2'') ''id-3'' (JObj []) demo3 =
     (\<lparr>status = 404, body = Some (JObj [(''message'', JStr ''not-found'')])\<rparr>, demo3)"
proof (intro conjI)
  let ?a = "\<lparr>pos = 0, list_a = [ada\<lparr>todos := Some [milk]\<rparr>], writer = writeUsers,
      token_a = ''tok-1'', role_a = User\<rparr>"
  have ts: "orEmpty (todos (user ?a)) = [milk]"
    by (simp add: user_def orEmpty_def)
  have k: "firstWithId ''id-3'' [milk] 0"
    by (simp add: firstWithId_def milk_def)
  note t = patchTodo_toggle [OF demo3_ada_auth ts [symmetric], of "''id-3''",
      THEN conjunct2, THEN spec, THEN mp, OF k]
  show "patchTodo (Some ''Bearer tok-1'') ''id-3'' (JObj []) demo3 =
     (\<lparr>status = 200, body = Some (JObj [(''todo'', todoObj (milk\<lparr>done_t := True\<rparr>))])\<rparr>,
      demo3\<lparr>usersFile := [ada\<lparr>todos := Some [milk\<lparr>done_t := True\<rparr>]\<rparr>],
            writeLog := [Admin, User, User, User]\<rparr>)"
    using t [of "JObj []", THEN conjunct1]
    by (simp add: getField_def withTodos_def setDone_def store_defs demo3_eval milk_def)
  show "patchTodo (Some ''Bearer tok-1'') ''id-3'' (JObj [(''done'', JBool False)]) demo3 =
     (\<lparr>status = 200, body = Some (JObj [(''todo'', todoObj milk)])\<rparr>,
      demo3\<lparr>writeLog := [Admin, User, User, User]\<rparr>)"
    using t [of "JObj [(''done'', JBool False)]", THEN conjunct2, THEN conjunct1, THEN spec,
        of False]
    by (simp add: getField_def withTodos_def setDone_def store_defs demo3_eval milk_def)
  have ts2: "orEmpty (todos (user \<lparr>pos = 0, list_a = [owner], writer = writeAdmins,
      token_a = ''tok-2'', role_a = Admin\<rparr>)) = []"
    by (simp add: user_def orEmpty_def owner_def)
  show "patchTodo (Some ''Bearer tok-2'') ''id-3'' (JObj []) demo3 =
     (\<lparr>status = 404, body = Some (JObj [(''message'', JStr ''not-found'')])\<rparr>, demo3)"
    using patchTodo_toggle [OF demo3_owner_auth ts2 [symmetric], of "''id-3''" "JObj []",
        THEN conjunct1]
    by simp
qed

section \<open>The password hash stays inside\<close>

lemma allKeys_todoObj: "allKeys (todoObj t) = {''id'', ''label'', ''done'', ''createdAt''}"
  by (auto simp: todoObj_def)

lemma allKeys_todos: "''passwordHash'' \<notin> allKeys (JArr (map todoObj ts))"
  by (simp add: allKeys_todoObj)

lemma allKeys_profileOf: "''passwordHash'' \<notin> allKeys (profileOf u)"
  by (cases "todos u") (auto simp: profileOf_def scrubMember_def omitKey_def accountObj_def allKeys_todoObj)

lemma fst_setKey: "fst ` set (setKey k v kvs) = insert k (fst ` set kvs)"
  by (induction kvs) auto

lemma snd_setKey: "snd ` set (setKey k v kvs) \<subseteq> insert v (snd ` set kvs)"
  by (induction kvs) auto

lemma allKeys_overviewEntry: "''passwordHash'' \<notin> allKeys (overviewEntry u)"
proof -
  let ?o = "scrubMember (accountObj u)"
  let ?v = "JArr (map todoObj (orEmpty (todos u)))"
  have 1: "''passwordHash'' \<notin> fst ` set ?o"
    by (auto simp: scrubMember_def omitKey_def)
  have 2: "\<forall>kv \<in> set ?o. ''passwordHash'' \<notin> allKeys (snd kv)"
    using allKeys_profileOf [of u] by (auto simp: profileOf_def)
  have 3: "''passwordHash'' \<notin> allKeys ?v" by (rule allKeys_todos)
  have "\<forall>kv \<in> set (setKey ''todos'' ?v ?o). ''passwordHash'' \<notin> allKeys (snd kv)"
  proof
    fix kv assume "kv \<in> set (setKey ''todos'' ?v ?o)"
    then have "snd kv \<in> insert ?v (snd ` set ?o)" using snd_setKey by fastforce
    with 2 3 show "''passwordHash'' \<notin> allKeys (snd kv)" by auto
  qed
  with 1 show ?thesis
    by (auto simp: overviewEntry_def fst_setKey)
qed

lemma hashFree_message: "hashFree (message c m)"
  by (simp add: hashFree_def message_def)

lemma hashFree_token_profile:
  "hashFree \<lparr>status = c, body = Some (JObj [(''token'', JStr t), (''profile'', profileOf u)])\<rparr>"
  using allKeys_profileOf [of u] by (simp add: hashFree_def)

lemma hashFree_profile:
  "hashFree \<lparr>status = c, body = Some (JObj [(''profile'', profileOf u)])\<rparr>"
  using allKeys_profileOf [of u] by (simp add: hashFree_def)

lemma hashFree_todos:
  "hashFree \<lparr>status = c, body = Some (JObj [(''todos'', JArr (map todoObj ts))])\<rparr>"
  by (simp add: hashFree_def allKeys_todoObj)

lemma hashFree_todo:
  "hashFree \<lparr>status = c, body = Some (JObj [(''todo'', todoObj t)])\<rparr>"
  by (simp add: hashFree_def allKeys_todoObj)

lemma hashFree_empty: "hashFree \<lparr>status = c, body = None\<rparr>"
  by (simp add: hashFree_def)

lemma hashFree_overview:
  "hashFree \<lparr>status = c, body = Some (JObj [(''users'', JArr (map overviewEntry us)),
     (''admins'', JArr (map overviewEntry as))])\<rparr>"
  using allKeys_overviewEntry by (simp add: hashFree_def)

lemma hashFree_gate: "requireAuth w h ra = Inl r \<Longrightarrow> hashFree r"
  by (auto simp: requireAuth_def Let_def hashFree_message split: if_splits option.splits)

lemmas hashFree_intros = hashFree_message hashFree_token_profile hashFree_profile hashFree_todos
  hashFree_todo hashFree_empty hashFree_overview

lemma hashFree_register: "hashFree (fst (register X b e w))"
  by (simp add: register_def hashFree_intros Let_def createSession_def split: option.splits)

lemma hashFree_login: "hashFree (fst (login X b e w))"
  by (simp add: login_def hashFree_intros Let_def createSession_def split: option.splits prod.splits)

lemma hashFree_getSessionRoute: "hashFree (fst (getSessionRoute h w))"
  by (cases "requireAuth w h False") (simp_all add: getSessionRoute_def hashFree_gate hashFree_intros)

lemma hashFree_getTodos: "hashFree (fst (getTodos h w))"
  by (cases "requireAuth w h False") (simp_all add: getTodos_def hashFree_gate hashFree_intros)

lemma hashFree_postTodo: "hashFree (fst (postTodo h b e w))"
  by (cases "requireAuth w h False")
    (simp_all add: postTodo_def hashFree_gate hashFree_intros Let_def split: option.splits)

lemma hashFree_patchTodo: "hashFree (fst (patchTodo h i b w))"
  by (cases "requireAuth w h False")
    (simp_all add: patchTodo_def hashFree_gate hashFree_intros Let_def split: option.splits)

lemma hashFree_deleteTodo: "hashFree (fst (deleteTodo h i w))"
  by (cases "requireAuth w h False")
    (simp_all add: deleteTodo_def hashFree_gate hashFree_intros Let_def)

lemma hashFree_adminOverview: "hashFree (fst (adminOverview h w))"
  by (cases "requireAuth w h True")
    (simp_all add: adminOverview_def hashFree_gate hashFree_intros)

lemma hashFree_adminCreateUser: "hashFree (fst (adminCreateUser X h b e w))"
  by (cases "requireAuth w h True")
    (simp_all add: adminCreateUser_def hashFree_gate hashFree_intros Let_def split: option.splits)

text \<open>
  Claim C8. Whatever the request and the state, the body of the response holds no
  object, at any depth, with a property named \<^verbatim>\<open>passwordHash\<close>. This covers the
  profiles of \<^verbatim>\<open>register\<close>, \<^verbatim>\<open>login\<close>, \<^verbatim>\<open>session\<close> and of the account provisioning, and
  every entry of both listings of the overview.
\<close>

theorem responses_never_hold_passwordHash:
  "case body (fst (handle X req w)) of
     None \<Rightarrow> True
   | Some j \<Rightarrow> ''passwordHash'' \<notin> allKeys j"
proof -
  have "hashFree (fst (handle X req w))"
    by (cases req)
      (simp_all add: hashFree_register hashFree_login hashFree_getSessionRoute hashFree_getTodos
        hashFree_postTodo hashFree_patchTodo hashFree_deleteTodo hashFree_adminOverview
        hashFree_adminCreateUser)
  then show ?thesis by (simp add: hashFree_def)
qed

theorem responses_never_hold_passwordHash_witness:
  "fst (handle demoExt (Login ownerBody (demoEntropy ''id-2'' ''tok-2'')) demo1) =
     \<lparr>status = 200, body = Some (JObj [(''token'', JStr ''tok-2''),
        (''profile'', JObj [(''id'', JStr ''id-0''), (''name'', JStr ''Builder''),
           (''email'', JStr ''owner@winery.board''), (''createdAt'', JNum 1000),
           (''role'', JStr ''admin''), (''todos'', JArr [])])])\<rparr>
   \<and> ''passwordHash'' \<notin> allKeys (JObj [(''token'', JStr ''tok-2''),
        (''profile'', JObj [(''id'', JStr ''id-0''), (''name'', JStr ''Builder''),
           (''email'', JStr ''owner@winery.board''), (''createdAt'', JNum 1000),
           (''role'', JStr ''admin''), (''todos'', JArr [])])])
   \<and> fst (handle demoExt (AdminOverview (Some ''Bearer tok-2'')) demo3) =
     \<lparr>status = 200, body = Some (JObj [
        (''users'', JArr [JObj [(''id'', JStr ''id-1''), (''name'', JStr ''Ada''),
           (''email'', JStr ''ada@x.com''), (''createdAt'', JNum 1000),
           (''role'', JStr ''user''), (''todos'', JArr [todoObj milk])]]),
        (''admins'', JArr [JObj [(''id'', JStr ''id-0''), (''name'', JStr ''Builder''),
           (''email'', JStr ''owner@winery.board''), (''createdAt'', JNum 1000),
           (''role'', JStr ''admin''), (''todos'', JArr [])]])])\<rparr>
   \<and> ''passwordHash'' \<notin> allKeys (JObj [
        (''users'', JArr [JObj [(''id'', JStr ''id-1''), (''name'', JStr ''Ada''),
           (''email'', JStr ''ada@x.com''), (''createdAt'', JNum 1000),
           (''role'', JStr ''user''), (''todos'', JArr [todoObj milk])]]),
        (''admins'', JArr [JObj [(''id'', JStr ''id-0''), (''name'', JStr ''Builder''),
           (''email'', JStr ''owner@winery.board''), (''createdAt'', JNum 1000),
           (''role'', JStr ''admin''), (''todos'', JArr [])]])])"
proof -
  have 1: "fst (handle demoExt (Login ownerBody (demoEntropy ''id-2'' ''tok-2'')) demo1) =
     \<lparr>status = 200, body = Some (JObj [(''token'', JStr ''tok-2''),
        (''profile'', JObj [(''id'', JStr ''id-0''), (''name'', JStr ''Builder''),
           (''email'', JStr ''owner@winery.board''), (''createdAt'', JNum 1000),
           (''role'', JStr ''admin''), (''todos'', JArr [])])])\<rparr>"
    by (simp add: demo1_eval login_def findForLogin_def demo_defs store_defs schema_defs
        createSession_def lower_Owner Let_def profileOf_def scrubMember_def omitKey_def
        accountObj_def roleStr_def)
  have 2: "fst (handle demoExt (AdminOverview (Some ''Bearer tok-2'')) demo3) =
     \<lparr>status = 200, body = Some (JObj [
        (''users'', JArr [JObj [(''id'', JStr ''id-1''), (''name'', JStr ''Ada''),
           (''email'', JStr ''ada@x.com''), (''createdAt'', JNum 1000),
           (''role'', JStr ''user''), (''todos'', JArr [todoObj milk])]]),
        (''admins'', JArr [JObj [(''id'', JStr ''id-0''), (''name'', JStr ''Builder''),
           (''email'', JStr ''owner@winery.board''), (''createdAt'', JNum 1000),
           (''role'', JStr ''admin''), (''todos'', JArr [])]])])\<rparr>"
    by (simp add: demo3_eval adminOverview_def gate_defs store_defs overviewEntry_def
        scrubMember_def omitKey_def accountObj_def roleStr_def Let_def
        owner_def ada_def adaSession_def ownerSession_def)
  show ?thesis
    using responses_never_hold_passwordHash [of demoExt "Login ownerBody (demoEntropy ''id-2'' ''tok-2'')" demo1]
      responses_never_hold_passwordHash [of demoExt "AdminOverview (Some ''Bearer tok-2'')" demo3]
    unfolding 1 2 by simp
qed

section \<open>Creating a task\<close>

lemma trim_blank: "trim ''   '' = []"
  by code_simp

lemma todoCreateSchema_raw:
  "todoCreateSchema (JObj [(''label'', JStr l)]) =
     (if 1 \<le> length l \<and> length l \<le> 140 then Some l else None)"
  by (simp add: schema_defs)

text \<open>What the handler does: the length that is checked is the length of the label
  as sent, and the label that is stored is the trimmed one.\<close>

lemma postTodo_checks_raw_label:
  assumes "requireAuth w h False = Inr a"
  shows "postTodo h (JObj [(''label'', JStr l)]) e w =
     (if 1 \<le> length l \<and> length l \<le> 140
      then (\<lparr>status = 201, body = Some (JObj [(''todo'', todoObj
               \<lparr>id_t = newId e, label = trim l, done_t = False, createdAt_t = clock e\<rparr>)])\<rparr>,
            withTodos a (\<lparr>id_t = newId e, label = trim l, done_t = False, createdAt_t = clock e\<rparr>
               # orEmpty (todos (user a))) w)
      else (message 400 ''validation-error'', w))"
  unfolding postTodo_auth [OF assms] todoCreateSchema_raw by simp

text \<open>
  Claim C3 does not hold of the code. The schema is \<^verbatim>\<open>z.string().min(1).max(140)\<close> on
  the label as sent, and \<^verbatim>\<open>trim()\<close> is applied afterwards: a label of three spaces
  passes the check, the request is answered 201, and a task with the empty label is
  put first in the caller's list and written to the users partition.
\<close>

theorem postTodo_blank_label_accepted:
  "postTodo (Some ''Bearer tok-1'') blankBody (demoEntropy ''id-4'' ''tok-4'') demo3 =
     (\<lparr>status = 201,
       body = Some (JObj [(''todo'', JObj [(''id'', JStr ''id-4''), (''label'', JStr []),
                 (''done'', JBool False), (''createdAt'', JNum 1000)])])\<rparr>,
      demo3\<lparr>usersFile := [ada\<lparr>todos := Some
                 [\<lparr>id_t = ''id-4'', label = [], done_t = False, createdAt_t = 1000\<rparr>, milk]\<rparr>],
            writeLog := [Admin, User, User, User]\<rparr>)"
  unfolding postTodo_auth [OF demo3_ada_auth] blankBody_def todoCreateSchema_raw
  by (simp add: trim_blank demoEntropy_def todoObj_def withTodos_def store_defs demo3_eval
      user_def orEmpty_def)

text \<open>The same check refuses a label of 141 code units whose trimmed form has one.\<close>

lemma long_padded_label:
  "length (CHR ''a'' # replicate 140 CHR '' '') = 141
   \<and> trim (CHR ''a'' # replicate 140 CHR '' '') = ''a''
   \<and> todoCreateSchema (JObj [(''label'', JStr (CHR ''a'' # replicate 140 CHR '' ''))]) = None"
proof -
  have "length (CHR ''a'' # replicate 140 CHR '' '') = 141
      \<and> trim (CHR ''a'' # replicate 140 CHR '' '') = ''a''"
    by code_simp
  then show ?thesis unfolding todoCreateSchema_raw by simp
qed

section \<open>The stored emails\<close>

lemma lowerCased_emails: "lowerCased us \<longleftrightarrow> (\<forall>em \<in> set (map email us). toLowerCase em = em)"
  by (auto simp: lowerCased_def list_all_iff)

lemma emailsLower_emailsOf:
  "emailsLower w \<longleftrightarrow> (\<forall>em \<in> set (fst (emailsOf w)) \<union> set (snd (emailsOf w)). toLowerCase em = em)"
  by (auto simp: emailsLower_def lowerCased_emails emailsOf_def)

lemma emailsOf_withTodos: "emailsOf (withTodos a ts w) = emailsOf w"
proof -
  have "\<And>xs i. map email (xs[i := (xs ! i)\<lparr>todos := Some ts\<rparr>]) = map email xs"
    by (rule map_update_same) simp
  then show ?thesis
    by (cases "role_a a") (simp_all add: emailsOf_def withTodos_def store_defs)
qed

lemma register_rejected:
  assumes "registerSchema X b = Some p"
    and "find (\<lambda>user. toLowerCase (email user) = toLowerCase (email_p p)) (readUsers w) \<noteq> None
         \<or> find (\<lambda>admin. toLowerCase (email admin) = toLowerCase (email_p p)) (readAdmins w) \<noteq> None"
  shows "register X b e w = (message 409 ''email-in-use'', w)"
  using assms(2) unfolding register_def assms(1) option.case Let_def by simp

lemma register_accepted:
  assumes "registerSchema X b = Some p"
    and "\<not> (find (\<lambda>user. toLowerCase (email user) = toLowerCase (email_p p)) (readUsers w) \<noteq> None
         \<or> find (\<lambda>admin. toLowerCase (email admin) = toLowerCase (email_p p)) (readAdmins w) \<noteq> None)"
    and "u = \<lparr>id_u = newId e, name = trim (name_p p), email = toLowerCase (email_p p),
           passwordHash = bcryptHash X (password_p p) (salt e),
           createdAt_u = clock e, role = User, todos = Some []\<rparr>"
  shows "register X b e w =
     (\<lparr>status = 201, body = Some (JObj [(''token'', JStr (newToken e)), (''profile'', profileOf u)])\<rparr>,
      w\<lparr>usersFile := usersFile w @ [u], writeLog := writeLog w @ [User],
        sessions := (sessions w)(newToken e \<mapsto>
          \<lparr>userId = newId e, role_s = User, createdAt_s = clock_s e\<rparr>)\<rparr>)"
  using assms(2) unfolding register_def assms(1) option.case
  by (simp add: Let_def createSession_def store_defs assms(3))

lemma find_email_iff: "find (\<lambda>u. email u = em) us \<noteq> None \<longleftrightarrow> em \<in> set (map email us)"
  by (induction us) auto

lemma find_lower_email_iff:
  "find (\<lambda>u. toLowerCase (email u) = em) us \<noteq> None \<longleftrightarrow> em \<in> toLowerCase ` set (map email us)"
  by (induction us) auto

text \<open>What a start of the process does to the stored emails.\<close>

lemma emailsOf_bootstrap:
  "emailsOf (bootstrap X cfg e w) =
     (if seedEmail cfg \<in> set (snd (emailsOf w)) then emailsOf w
      else (fst (emailsOf w), snd (emailsOf w) @ [seedEmail cfg]))"
  using find_email_iff [of "seedEmail cfg" "adminsFile w"]
  by (simp add: bootstrap_def ensureSeedAdmin_def Let_def emailsOf_def store_defs
      seedEmail_def [symmetric])

lemma emailsOf_register:
  "emailsOf (snd (register X b e w)) = emailsOf w
   \<or> (\<exists>em. toLowerCase em = em
         \<and> em \<notin> toLowerCase ` (set (fst (emailsOf w)) \<union> set (snd (emailsOf w)))
         \<and> emailsOf (snd (register X b e w)) = (fst (emailsOf w) @ [em], snd (emailsOf w)))"
proof (cases "registerSchema X b")
  case None
  then show ?thesis by (simp add: register_def)
next
  case (Some p)
  let ?em = "toLowerCase (email_p p)"
  show ?thesis
  proof (cases "find (\<lambda>user. toLowerCase (email user) = ?em) (readUsers w) \<noteq> None
                \<or> find (\<lambda>admin. toLowerCase (email admin) = ?em) (readAdmins w) \<noteq> None")
    case True
    then show ?thesis by (simp add: register_rejected [OF Some])
  next
    case False
    then have "?em \<notin> toLowerCase ` (set (fst (emailsOf w)) \<union> set (snd (emailsOf w)))"
      by (auto simp: find_None_iff emailsOf_def store_defs)
    moreover have "emailsOf (snd (register X b e w)) = (fst (emailsOf w) @ [?em], snd (emailsOf w))"
      unfolding register_accepted [OF Some False refl]
      by (simp add: emailsOf_def)
    ultimately show ?thesis using toLowerCase_idem by blast
  qed
qed

lemma emailsOf_login: "emailsOf (snd (login X b e w)) = emailsOf w"
  by (simp add: login_def createSession_def Let_def emailsOf_def split: option.splits prod.splits)

lemma emailsOf_getSessionRoute: "emailsOf (snd (getSessionRoute h w)) = emailsOf w"
  by (simp add: getSessionRoute_def split: sum.splits)

lemma emailsOf_getTodos: "emailsOf (snd (getTodos h w)) = emailsOf w"
  by (simp add: getTodos_def split: sum.splits)

lemma emailsOf_adminOverview: "emailsOf (snd (adminOverview h w)) = emailsOf w"
  by (simp add: adminOverview_def split: sum.splits)

lemma emailsOf_postTodo: "emailsOf (snd (postTodo h b e w)) = emailsOf w"
proof (cases "requireAuth w h False")
  case (Inl r)
  then show ?thesis by (simp add: postTodo_def)
next
  case (Inr a)
  show ?thesis unfolding postTodo_auth [OF Inr]
    by (simp add: emailsOf_withTodos split: option.splits)
qed

lemma emailsOf_patchTodo: "emailsOf (snd (patchTodo h i b w)) = emailsOf w"
proof (cases "requireAuth w h False")
  case (Inl r)
  then show ?thesis by (simp add: patchTodo_def)
next
  case (Inr a)
  show ?thesis unfolding patchTodo_auth [OF Inr]
    by (simp add: emailsOf_withTodos Let_def split: option.splits)
qed

lemma emailsOf_deleteTodo: "emailsOf (snd (deleteTodo h i w)) = emailsOf w"
proof (cases "requireAuth w h False")
  case (Inl r)
  then show ?thesis by (simp add: deleteTodo_def)
next
  case (Inr a)
  show ?thesis unfolding deleteTodo_auth [OF Inr]
    by (simp add: emailsOf_withTodos Let_def)
qed

lemma emailsOf_adminCreateUser:
  "emailsOf (snd (adminCreateUser X h b e w)) = emailsOf w
   \<or> (\<exists>em. toLowerCase em = em
         \<and> em \<notin> set (fst (emailsOf w)) \<union> set (snd (emailsOf w))
         \<and> (emailsOf (snd (adminCreateUser X h b e w)) = (fst (emailsOf w) @ [em], snd (emailsOf w))
            \<or> emailsOf (snd (adminCreateUser X h b e w)) = (fst (emailsOf w), snd (emailsOf w) @ [em])))"
proof (cases "requireAuth w h True")
  case (Inl r)
  then show ?thesis by (simp add: adminCreateUser_def)
next
  case (Inr a)
  show ?thesis
  proof (cases "adminCreateUserSchema X b")
    case None
    then show ?thesis by (simp add: adminCreateUser_def Inr)
  next
    case (Some p)
    let ?em = "toLowerCase (email_p p)"
    show ?thesis
    proof (cases "find (\<lambda>user. email user = ?em) (readUsers w) \<noteq> None
                \<or> find (\<lambda>admin. email admin = ?em) (readAdmins w) \<noteq> None")
      case True
      then show ?thesis unfolding adminCreateUser_def Inr sum.case Some option.case Let_def by simp
    next
      case False
      then have "?em \<notin> set (fst (emailsOf w)) \<union> set (snd (emailsOf w))"
        by (auto simp: find_None_iff emailsOf_def store_defs)
      moreover have "emailsOf (snd (adminCreateUser X h b e w)) = (fst (emailsOf w) @ [?em], snd (emailsOf w))
            \<or> emailsOf (snd (adminCreateUser X h b e w)) = (fst (emailsOf w), snd (emailsOf w) @ [?em])"
        using False unfolding adminCreateUser_def Inr sum.case Some option.case Let_def
        by (simp add: emailsOf_def store_defs)
      ultimately show ?thesis using toLowerCase_idem by blast
    qed
  qed
qed


lemma emailsLower_pair:
  "emailsLower w \<longleftrightarrow>
     list_all (\<lambda>em. toLowerCase em = em) (fst (emailsOf w))
     \<and> list_all (\<lambda>em. toLowerCase em = em) (snd (emailsOf w))"
  by (simp add: emailsLower_def lowerCased_def emailsOf_def list_all_iff)

lemma emailsLower_bootstrap: "emailsLower w \<Longrightarrow> emailsLower (bootstrap X cfg e w)"
  unfolding emailsLower_pair emailsOf_bootstrap
  by (simp add: seedEmail_def toLowerCase_idem)

lemma emailsLower_register: "emailsLower w \<Longrightarrow> emailsLower (snd (register X b e w))"
proof -
  assume w: "emailsLower w"
  from emailsOf_register [of X b e w] show ?thesis
  proof (elim disjE exE conjE)
    assume "emailsOf (snd (register X b e w)) = emailsOf w"
    with w show ?thesis by (simp add: emailsLower_pair)
  next
    fix em
    assume "toLowerCase em = em"
      "emailsOf (snd (register X b e w)) = (fst (emailsOf w) @ [em], snd (emailsOf w))"
    with w show ?thesis by (simp add: emailsLower_pair)
  qed
qed

lemma emailsLower_adminCreateUser:
  "emailsLower w \<Longrightarrow> emailsLower (snd (adminCreateUser X h b e w))"
proof -
  assume w: "emailsLower w"
  from emailsOf_adminCreateUser [of X h b e w] show ?thesis
  proof (elim disjE exE conjE)
    assume "emailsOf (snd (adminCreateUser X h b e w)) = emailsOf w"
    with w show ?thesis by (simp add: emailsLower_pair)
  next
    fix em
    assume "toLowerCase em = em"
      "emailsOf (snd (adminCreateUser X h b e w)) = (fst (emailsOf w) @ [em], snd (emailsOf w))"
    with w show ?thesis by (simp add: emailsLower_pair)
  next
    fix em
    assume "toLowerCase em = em"
      "emailsOf (snd (adminCreateUser X h b e w)) = (fst (emailsOf w), snd (emailsOf w) @ [em])"
    with w show ?thesis by (simp add: emailsLower_pair)
  qed
qed

lemma emailsLower_same: "emailsOf w' = emailsOf w \<Longrightarrow> emailsLower w \<Longrightarrow> emailsLower w'"
  by (simp add: emailsLower_pair)

lemma emailsLower_handle: "emailsLower w \<Longrightarrow> emailsLower (snd (handle X req w))"
proof (cases req)
  case (Register b e)
  then show "emailsLower w \<Longrightarrow> ?thesis" by (simp add: emailsLower_register)
next
  case (Login b e)
  then show "emailsLower w \<Longrightarrow> ?thesis" by (simp add: emailsLower_same [OF emailsOf_login])
next
  case (GetSession h)
  then show "emailsLower w \<Longrightarrow> ?thesis"
    by (simp add: emailsLower_same [OF emailsOf_getSessionRoute])
next
  case (GetTodos h)
  then show "emailsLower w \<Longrightarrow> ?thesis" by (simp add: emailsLower_same [OF emailsOf_getTodos])
next
  case (PostTodo h b e)
  then show "emailsLower w \<Longrightarrow> ?thesis" by (simp add: emailsLower_same [OF emailsOf_postTodo])
next
  case (PatchTodo h i b)
  then show "emailsLower w \<Longrightarrow> ?thesis" by (simp add: emailsLower_same [OF emailsOf_patchTodo])
next
  case (DeleteTodo h i)
  then show "emailsLower w \<Longrightarrow> ?thesis" by (simp add: emailsLower_same [OF emailsOf_deleteTodo])
next
  case (AdminOverview h)
  then show "emailsLower w \<Longrightarrow> ?thesis"
    by (simp add: emailsLower_same [OF emailsOf_adminOverview])
next
  case (AdminCreateUser h b e)
  then show "emailsLower w \<Longrightarrow> ?thesis" by (simp add: emailsLower_adminCreateUser)
qed

lemma emailsLower_emptyWorld: "emailsLower emptyWorld"
  by (simp add: emailsLower_def lowerCased_def emptyWorld_def)

lemma reachable_emailsLower: "reachable X w \<Longrightarrow> emailsLower w"
proof (induction rule: reachable.induct)
  case (boot cfg e)
  show ?case by (rule emailsLower_bootstrap [OF emailsLower_emptyWorld])
next
  case (serve w req)
  from serve.IH show ?case by (rule emailsLower_handle)
next
  case (restart w cfg e)
  from restart.IH show ?case by (rule emailsLower_bootstrap)
qed

text \<open>
  Claim C10. Every account the service has stored in a state it can reach
  (registration, provisioning by an administrator and the seeder are the three
  places that create one) has an email that is its own lower-case form; and from
  any state in which the stored emails are lower-case, every request and every
  start of the process lead to such a state again.
\<close>

theorem stored_emails_are_lower_case:
  "(reachable X w \<longrightarrow> (\<forall>u \<in> set (usersFile w) \<union> set (adminsFile w). toLowerCase (email u) = email u))
   \<and> (emailsLower w \<longrightarrow> emailsLower (snd (handle X req w)) \<and> emailsLower (bootstrap X cfg e w))"
proof (intro conjI impI ballI)
  fix u
  assume "reachable X w" and u: "u \<in> set (usersFile w) \<union> set (adminsFile w)"
  then have "emailsLower w" by (simp add: reachable_emailsLower)
  with u show "toLowerCase (email u) = email u"
    unfolding emailsLower_def lowerCased_def list_all_iff by blast
next
  assume "emailsLower w"
  then show "emailsLower (snd (handle X req w))" by (rule emailsLower_handle)
next
  assume "emailsLower w"
  then show "emailsLower (bootstrap X cfg e w)" by (rule emailsLower_bootstrap)
qed

theorem stored_emails_are_lower_case_witness:
  "reachable demoExt demo3
   \<and> map email (usersFile demo3) = [''ada@x.com'']
   \<and> map email (adminsFile demo3) = [''owner@winery.board'']
   \<and> toLowerCase ''ada@x.com'' = ''ada@x.com''
   \<and> toLowerCase ''owner@winery.board'' = ''owner@winery.board''"
proof -
  have "\<forall>u \<in> set (usersFile demo3) \<union> set (adminsFile demo3). toLowerCase (email u) = email u"
    using stored_emails_are_lower_case [of demoExt demo3, THEN conjunct1] demo3_reachable
    by blast
  then show ?thesis
    using demo3_reachable by (simp add: demo3_eval ada_def owner_def)
qed

section \<open>The seeder\<close>

lemma ensureSeedAdmin_eq:
  "ensureSeedAdmin X cfg e w =
     (if seedEmail cfg \<in> set (map email (adminsFile w)) then w
      else writeAdmins (adminsFile w @
             [\<lparr>id_u = newId e, name = orDefault (ADMIN_NAME cfg) ''Builder'', email = seedEmail cfg,
               passwordHash = bcryptHash X (orDefault (ADMIN_PASSWORD cfg) ''wineryadmin'') (salt e),
               createdAt_u = clock e, role = Admin, todos = Some []\<rparr>]) w)"
  using find_email_iff [of "seedEmail cfg" "adminsFile w"]
  by (simp add: ensureSeedAdmin_def Let_def store_defs seedEmail_def [symmetric])

lemma lowerCased_member:
  assumes "lowerCased us"
  shows "toLowerCase em \<in> set (map email us) \<longleftrightarrow> (\<exists>u \<in> set us. toLowerCase (email u) = toLowerCase em)"
proof
  assume "toLowerCase em \<in> set (map email us)"
  then obtain u where "u \<in> set us" "email u = toLowerCase em" by auto
  then show "\<exists>u \<in> set us. toLowerCase (email u) = toLowerCase em"
    using toLowerCase_idem by metis
next
  assume "\<exists>u \<in> set us. toLowerCase (email u) = toLowerCase em"
  then obtain u where u: "u \<in> set us" "toLowerCase (email u) = toLowerCase em" by auto
  with assms have "email u = toLowerCase em"
    by (auto simp: lowerCased_def list_all_iff)
  with u show "toLowerCase em \<in> set (map email us)" by force
qed

lemma startup_emailsLower: "w = emptyWorld \<or> reachable X w \<Longrightarrow> emailsLower w"
  using emailsLower_emptyWorld reachable_emailsLower by blast

lemma seeder_on_lowerCased:
  assumes low: "lowerCased (adminsFile w)"
  shows "let seed = orDefault (ADMIN_EMAIL cfg) ''owner@winery.board'';
             w1 = ensureSeedAdmin X cfg e w
         in (if \<exists>u \<in> set (adminsFile w). toLowerCase (email u) = toLowerCase seed
             then w1 = w
             else w1 = w\<lparr>adminsFile := adminsFile w @
                       [\<lparr>id_u = newId e, name = orDefault (ADMIN_NAME cfg) ''Builder'',
                         email = toLowerCase seed,
                         passwordHash = bcryptHash X (orDefault (ADMIN_PASSWORD cfg) ''wineryadmin'') (salt e),
                         createdAt_u = clock e, role = Admin, todos = Some []\<rparr>],
                      writeLog := writeLog w @ [Admin]\<rparr>)
            \<and> ensureSeedAdmin X cfg e2 w1 = w1
            \<and> length (filter (\<lambda>u. toLowerCase (email u) = toLowerCase seed) (adminsFile w1))
                = (if \<exists>u \<in> set (adminsFile w). toLowerCase (email u) = toLowerCase seed
                   then length (filter (\<lambda>u. toLowerCase (email u) = toLowerCase seed) (adminsFile w))
                   else 1)"
proof -
  define seed where "seed = orDefault (ADMIN_EMAIL cfg) ''owner@winery.board''"
  have se: "seedEmail cfg = toLowerCase seed" by (simp add: seedEmail_def seed_def)
  note mem = lowerCased_member [OF low, of seed]
  show ?thesis
  proof (cases "\<exists>u \<in> set (adminsFile w). toLowerCase (email u) = toLowerCase seed")
    case True
    then have 1: "ensureSeedAdmin X cfg e w = w"
      using mem by (simp add: ensureSeedAdmin_eq se)
    have 2: "ensureSeedAdmin X cfg e2 w = w"
      using True mem by (simp add: ensureSeedAdmin_eq se)
    show ?thesis
      unfolding seed_def [symmetric] Let_def 1 if_P [OF True] using 2 by simp
  next
    case False
    let ?u = "\<lparr>id_u = newId e, name = orDefault (ADMIN_NAME cfg) ''Builder'',
                         email = toLowerCase seed,
                         passwordHash = bcryptHash X (orDefault (ADMIN_PASSWORD cfg) ''wineryadmin'') (salt e),
                         createdAt_u = clock e, role = Admin, todos = Some []\<rparr>"
    let ?w1 = "w\<lparr>adminsFile := adminsFile w @ [?u], writeLog := writeLog w @ [Admin]\<rparr>"
    have 1: "ensureSeedAdmin X cfg e w = ?w1"
      using False mem by (simp add: ensureSeedAdmin_eq se store_defs)
    have 2: "ensureSeedAdmin X cfg e2 ?w1 = ?w1"
      by (simp add: ensureSeedAdmin_eq se)
    have 3: "filter (\<lambda>u. toLowerCase (email u) = toLowerCase seed) (adminsFile w) = []"
      using False by (auto simp: filter_empty_conv)
    show ?thesis
      unfolding seed_def [symmetric] Let_def 1 if_not_P [OF False] using 2 3
      by (simp add: toLowerCase_idem)
  qed
qed

text \<open>
  Claim C7. At every start of the process, on the empty data files or on the files
  of any state the service can reach: when an account of the admins partition has
  the configured seed email up to letter case, the start changes neither data file
  and writes nothing (no account is added, no stored hash is replaced); otherwise
  exactly one account is appended to the admins partition, with the lower-cased
  seed email, the role \<^verbatim>\<open>admin\<close> and the hash derived from the configured password,
  and the partition is written once. Either way a second start with the same
  environment changes nothing, and after a seeding start exactly one account of the
  admins partition has the seed email.
\<close>

theorem seeder_idempotent:
  assumes "w = emptyWorld \<or> reachable X w"
  shows "let seed = orDefault (ADMIN_EMAIL cfg) ''owner@winery.board'';
             w0 = w\<lparr>sessions := Map.empty\<rparr>;
             w1 = bootstrap X cfg e w
         in (if \<exists>u \<in> set (adminsFile w). toLowerCase (email u) = toLowerCase seed
             then w1 = w0
             else w1 = w0\<lparr>adminsFile := adminsFile w @
                       [\<lparr>id_u = newId e, name = orDefault (ADMIN_NAME cfg) ''Builder'',
                         email = toLowerCase seed,
                         passwordHash = bcryptHash X (orDefault (ADMIN_PASSWORD cfg) ''wineryadmin'') (salt e),
                         createdAt_u = clock e, role = Admin, todos = Some []\<rparr>],
                      writeLog := writeLog w @ [Admin]\<rparr>)
            \<and> bootstrap X cfg e2 w1 = w1
            \<and> length (filter (\<lambda>u. toLowerCase (email u) = toLowerCase seed) (adminsFile w1))
                = (if \<exists>u \<in> set (adminsFile w). toLowerCase (email u) = toLowerCase seed
                   then length (filter (\<lambda>u. toLowerCase (email u) = toLowerCase seed) (adminsFile w))
                   else 1)"
proof -
  have low: "lowerCased (adminsFile (w\<lparr>sessions := Map.empty\<rparr>))"
    using startup_emailsLower [OF assms] by (simp add: emailsLower_def)
  have s: "sessions (ensureSeedAdmin X cfg e (w\<lparr>sessions := Map.empty\<rparr>)) = Map.empty"
    by (simp add: ensureSeedAdmin_eq store_defs)
  have r: "\<And>v. sessions v = Map.empty \<Longrightarrow> v\<lparr>sessions := Map.empty\<rparr> = v"
    by simp
  show ?thesis
    using seeder_on_lowerCased [OF low, where X = X and cfg = cfg and e = e and ?e2.0 = e2]
    unfolding bootstrap_def Let_def r [OF s] by simp
qed


lemma lower_OWNER: "toLowerCase ''OWNER@WINERY.BOARD'' = ''owner@winery.board''"
  by code_simp

lemma lower_Root: "toLowerCase ''Root@X.com'' = ''root@x.com''"
  by code_simp

theorem seeder_idempotent_witness:
  "bootstrap demoExt \<lparr>ADMIN_EMAIL = Some ''OWNER@WINERY.BOARD'', ADMIN_PASSWORD = Some ''other'',
       ADMIN_NAME = None\<rparr> (demoEntropy ''id-5'' ''tok-5'') demo3
     = demo3\<lparr>sessions := Map.empty\<rparr>
   \<and> bootstrap demoExt \<lparr>ADMIN_EMAIL = Some ''Root@X.com'', ADMIN_PASSWORD = None,
       ADMIN_NAME = None\<rparr> (demoEntropy ''id-5'' ''tok-5'') demo3
     = demo3\<lparr>sessions := Map.empty,
         adminsFile := [owner, \<lparr>id_u = ''id-5'', name = ''Builder'', email = ''root@x.com'',
           passwordHash = ''$2a$10$wineryadmin'', createdAt_u = 1000, role = Admin,
           todos = Some []\<rparr>],
         writeLog := [Admin, User, User, Admin]\<rparr>"
proof (intro conjI)
  have r: "demo3 = emptyWorld \<or> reachable demoExt demo3"
    using demo3_reachable by simp
  show "bootstrap demoExt \<lparr>ADMIN_EMAIL = Some ''OWNER@WINERY.BOARD'', ADMIN_PASSWORD = Some ''other'',
       ADMIN_NAME = None\<rparr> (demoEntropy ''id-5'' ''tok-5'') demo3
     = demo3\<lparr>sessions := Map.empty\<rparr>"
    using seeder_idempotent [OF r, where cfg = "\<lparr>ADMIN_EMAIL = Some ''OWNER@WINERY.BOARD'',
       ADMIN_PASSWORD = Some ''other'', ADMIN_NAME = None\<rparr>" and e = "demoEntropy ''id-5'' ''tok-5''"]
    by (simp add: Let_def orDefault_def lower_OWNER lower_owner demo3_eval owner_def)
  show "bootstrap demoExt \<lparr>ADMIN_EMAIL = Some ''Root@X.com'', ADMIN_PASSWORD = None,
       ADMIN_NAME = None\<rparr> (demoEntropy ''id-5'' ''tok-5'') demo3
     = demo3\<lparr>sessions := Map.empty,
         adminsFile := [owner, \<lparr>id_u = ''id-5'', name = ''Builder'', email = ''root@x.com'',
           passwordHash = ''$2a$10$wineryadmin'', createdAt_u = 1000, role = Admin,
           todos = Some []\<rparr>],
         writeLog := [Admin, User, User, Admin]\<rparr>"
    using seeder_idempotent [OF r, where cfg = "\<lparr>ADMIN_EMAIL = Some ''Root@X.com'',
       ADMIN_PASSWORD = None, ADMIN_NAME = None\<rparr>" and e = "demoEntropy ''id-5'' ''tok-5''"]
    by (simp add: Let_def orDefault_def lower_Root lower_owner demo3_eval owner_def
        demoEntropy_def demoExt_def)
qed

section \<open>Registration, then login\<close>

lemma find_append_Some: "find P xs = Some u \<Longrightarrow> find P (xs @ ys) = Some u"
  by (induction xs) (auto split: if_splits)

lemma find_append_None: "find P xs = None \<Longrightarrow> find P (xs @ ys) = find P ys"
  by (induction xs) (auto split: if_splits)

lemma find_update_todos:
  assumes "find (\<lambda>x. email x = em) xs = Some u"
  shows "\<exists>u'. find (\<lambda>x. email x = em) (xs[i := (xs ! i)\<lparr>todos := t\<rparr>]) = Some u'
           \<and> id_u u' = id_u u \<and> passwordHash u' = passwordHash u"
  using assms
proof (induction xs arbitrary: i)
  case Nil
  then show ?case by simp
next
  case (Cons x xs)
  show ?case
  proof (cases i)
    case 0
    with Cons.prems show ?thesis by (auto split: if_splits)
  next
    case (Suc j)
    with Cons.prems Cons.IH [of j] show ?thesis by (auto split: if_splits)
  qed
qed

lemma usersFile_withTodos:
  "usersFile (withTodos a ts w) = usersFile w
   \<or> usersFile (withTodos a ts w) = (usersFile w)[pos a := (usersFile w ! pos a)\<lparr>todos := Some ts\<rparr>]"
  by (cases "role_a a") (simp_all add: withTodos_def store_defs)

text \<open>How a request or a start can change the users partition: not at all, by one
  account appended, or by the task list of one account.\<close>

lemma usersFile_bootstrap: "usersFile (bootstrap X cfg e w) = usersFile w"
  by (simp add: bootstrap_def ensureSeedAdmin_eq store_defs)

lemma usersFile_handle:
  "usersFile (snd (handle X req w)) = usersFile w
   \<or> (\<exists>u. usersFile (snd (handle X req w)) = usersFile w @ [u])
   \<or> (\<exists>i t. usersFile (snd (handle X req w)) = (usersFile w)[i := (usersFile w ! i)\<lparr>todos := t\<rparr>])"
proof (cases req)
  case (Register b e)
  show ?thesis
  proof (cases "registerSchema X b")
    case None
    then show ?thesis by (simp add: Register register_def)
  next
    case (Some p)
    show ?thesis
    proof (cases "find (\<lambda>user. toLowerCase (email user) = toLowerCase (email_p p)) (readUsers w) \<noteq> None
         \<or> find (\<lambda>admin. toLowerCase (email admin) = toLowerCase (email_p p)) (readAdmins w) \<noteq> None")
      case True
      then show ?thesis by (simp add: Register register_rejected [OF Some])
    next
      case False
      show ?thesis by (simp add: Register register_accepted [OF Some False refl])
    qed
  qed
next
  case (Login b e)
  then show ?thesis
    by (simp add: login_def createSession_def Let_def split: option.splits prod.splits)
next
  case (GetSession h)
  then show ?thesis by (simp add: getSessionRoute_def split: sum.splits)
next
  case (GetTodos h)
  then show ?thesis by (simp add: getTodos_def split: sum.splits)
next
  case (PostTodo h b e)
  show ?thesis
  proof (cases "requireAuth w h False")
    case (Inl r)
    then show ?thesis by (simp add: PostTodo postTodo_def)
  next
    case (Inr a)
    show ?thesis
      using usersFile_withTodos [of a _ w]
      by (auto simp: PostTodo postTodo_auth [OF Inr] split: option.splits)
  qed
next
  case (PatchTodo h i b)
  show ?thesis
  proof (cases "requireAuth w h False")
    case (Inl r)
    then show ?thesis by (simp add: PatchTodo patchTodo_def)
  next
    case (Inr a)
    show ?thesis
      using usersFile_withTodos [of a _ w]
      by (auto simp: PatchTodo patchTodo_auth [OF Inr] Let_def split: option.splits)
  qed
next
  case (DeleteTodo h i)
  show ?thesis
  proof (cases "requireAuth w h False")
    case (Inl r)
    then show ?thesis by (simp add: DeleteTodo deleteTodo_def)
  next
    case (Inr a)
    show ?thesis
      using usersFile_withTodos [of a _ w]
      by (auto simp: DeleteTodo deleteTodo_auth [OF Inr] Let_def)
  qed
next
  case (AdminOverview h)
  then show ?thesis by (simp add: adminOverview_def split: sum.splits)
next
  case (AdminCreateUser h b e)
  then show ?thesis
    by (simp add: adminCreateUser_def Let_def store_defs split: sum.splits option.splits)
qed


lemma account_kept_by_handle:
  assumes "find (\<lambda>x. email x = em) (usersFile w) = Some u"
  shows "\<exists>u'. find (\<lambda>x. email x = em) (usersFile (snd (handle X req w))) = Some u'
           \<and> id_u u' = id_u u \<and> passwordHash u' = passwordHash u"
proof -
  from usersFile_handle [of X req w] show ?thesis
  proof (elim disjE exE)
    assume "usersFile (snd (handle X req w)) = usersFile w"
    with assms show ?thesis by simp
  next
    fix v
    assume "usersFile (snd (handle X req w)) = usersFile w @ [v]"
    with find_append_Some [OF assms] show ?thesis by simp
  next
    fix i t
    assume "usersFile (snd (handle X req w)) = (usersFile w)[i := (usersFile w ! i)\<lparr>todos := t\<rparr>]"
    with find_update_todos [OF assms] show ?thesis by simp
  qed
qed

lemma account_kept:
  assumes "runsTo X w w'" and "find (\<lambda>x. email x = em) (usersFile w) = Some u"
  shows "\<exists>u'. find (\<lambda>x. email x = em) (usersFile w') = Some u'
           \<and> id_u u' = id_u u \<and> passwordHash u' = passwordHash u"
  using assms
proof (induction rule: runsTo.induct)
  case here
  then show ?case by simp
next
  case (serve w1 req)
  then obtain u1 where u1: "find (\<lambda>x. email x = em) (usersFile w1) = Some u1"
    "id_u u1 = id_u u" "passwordHash u1 = passwordHash u" by blast
  from account_kept_by_handle [OF u1(1), of X req] u1(2,3) show ?case by auto
next
  case (restart w1 cfg e)
  then show ?case by (simp add: usersFile_bootstrap)
qed

lemma loginSchema_loginBody:
  "loginSchema X (loginBody em pw) =
     (if isEmail X em \<and> 6 \<le> length pw \<and> length pw \<le> 64
      then Some \<lparr>email_l = em, password_l = pw\<rparr> else None)"
  by (simp add: loginBody_def schema_defs)

lemma registerSchema_SomeD:
  assumes "registerSchema X b = Some p"
  shows "6 \<le> length (password_p p) \<and> length (password_p p) \<le> 64 \<and> isEmail X (email_p p)
     \<and> 2 \<le> length (name_p p) \<and> length (name_p p) \<le> 40"
  using assms
  by (auto simp: registerSchema_def zString_def zEmail_def
      split: json.splits option.splits if_splits)

lemma login_user_found:
  assumes "find (\<lambda>x. email x = toLowerCase em) (usersFile w) = Some u"
    and "isEmail X em" "6 \<le> length pw" "length pw \<le> 64"
    and "bcryptCompare X pw (passwordHash u)"
  shows "login X (loginBody em pw) e w =
     (\<lparr>status = 200, body = Some (JObj [(''token'', JStr (newToken e)), (''profile'', profileOf u)])\<rparr>,
      w\<lparr>sessions := (sessions w)(newToken e \<mapsto>
          \<lparr>userId = id_u u, role_s = User, createdAt_s = clock_s e\<rparr>)\<rparr>)"
  using assms
  by (simp add: login_def loginSchema_loginBody findForLogin_def store_defs createSession_def Let_def)

lemma profileField_id: "getField (profileOf u) ''id'' = Some (JStr (id_u u))"
  by (simp add: profileOf_def scrubMember_def omitKey_def accountObj_def getField_def)

lemma profileField_email: "getField (profileOf u) ''email'' = Some (JStr (email u))"
  by (simp add: profileOf_def scrubMember_def omitKey_def accountObj_def getField_def)

text \<open>
  Claim C4. Let the password verifier accept the hashes it derived, let a
  registration body pass the schema and be answered 201. Then the profile of the
  response has the lower-cased email and the id of the new account. In the state
  the registration leaves, and in every state the service gets to from there, a
  login with an email that passes the format check and equals the registered email
  up to letter case, and with the same password, is answered 200 with a profile
  whose id is the id of the registered account, and its token is bound to that
  account id with the role \<^verbatim>\<open>user\<close>.
\<close>

theorem register_then_login:
  assumes sound: "verifierSound X"
    and valid: "registerSchema X b = Some p"
    and accepted: "status (fst (register X b e w)) = 201"
    and later: "runsTo X (snd (register X b e w)) w'"
    and same: "toLowerCase em = toLowerCase (email_p p)"
    and email: "isEmail X em"
  shows "profileField (fst (register X b e w)) ''email'' = Some (JStr (toLowerCase (email_p p)))
       \<and> profileField (fst (register X b e w)) ''id'' = Some (JStr (newId e))
       \<and> status (fst (login X (loginBody em (password_p p)) e' w')) = 200
       \<and> profileField (fst (login X (loginBody em (password_p p)) e' w')) ''id'' = Some (JStr (newId e))
       \<and> sessions (snd (login X (loginBody em (password_p p)) e' w')) (newToken e')
            = Some \<lparr>userId = newId e, role_s = User, createdAt_s = clock_s e'\<rparr>"
proof -
  let ?em = "toLowerCase (email_p p)"
  define u where "u = \<lparr>id_u = newId e, name = trim (name_p p), email = ?em,
           passwordHash = bcryptHash X (password_p p) (salt e),
           createdAt_u = clock e, role = User, todos = Some []\<rparr>"
  have free: "\<not> (find (\<lambda>user. toLowerCase (email user) = ?em) (readUsers w) \<noteq> None
         \<or> find (\<lambda>admin. toLowerCase (email admin) = ?em) (readAdmins w) \<noteq> None)"
  proof
    assume "find (\<lambda>user. toLowerCase (email user) = ?em) (readUsers w) \<noteq> None
         \<or> find (\<lambda>admin. toLowerCase (email admin) = ?em) (readAdmins w) \<noteq> None"
    from register_rejected [OF valid this, of e] accepted show False
      by (simp add: message_def)
  qed
  note reg = register_accepted [OF valid free u_def]
  have none: "find (\<lambda>x. email x = ?em) (usersFile w) = None"
  proof (rule ccontr)
    assume "find (\<lambda>x. email x = ?em) (usersFile w) \<noteq> None"
    then obtain x where "x \<in> set (usersFile w)" "email x = ?em"
      by (auto simp: find_None_iff)
    then have "\<exists>x \<in> set (usersFile w). toLowerCase (email x) = ?em"
      using toLowerCase_idem by metis
    then have "find (\<lambda>user. toLowerCase (email user) = ?em) (readUsers w) \<noteq> None"
      by (auto simp: find_None_iff store_defs)
    with free show False by simp
  qed
  have "find (\<lambda>x. email x = ?em) (usersFile (snd (register X b e w))) = Some u"
    unfolding reg using find_append_None [OF none, of "[u]"] by (simp add: u_def)
  from account_kept [OF later this] obtain u' where
    u': "find (\<lambda>x. email x = ?em) (usersFile w') = Some u'" "id_u u' = newId e"
      "passwordHash u' = bcryptHash X (password_p p) (salt e)"
    by (auto simp: u_def)
  have pw: "6 \<le> length (password_p p)" "length (password_p p) \<le> 64"
    using registerSchema_SomeD [OF valid] by simp_all
  have cmp: "bcryptCompare X (password_p p) (passwordHash u')"
    using sound by (simp add: verifierSound_def u'(3))
  note log = login_user_found [OF u'(1) [folded same] email pw cmp, of e']
  show ?thesis
    unfolding log reg
    by (simp add: profileField_def getField_def [of "JObj _"] profileField_id profileField_email
        u_def u'(2))
qed


lemma verifierSound_demoExt: "verifierSound demoExt"
  by (simp add: verifierSound_def demoExt_def)

lemma lower_ADA: "toLowerCase ''ADA@x.COM'' = ''ada@x.com''"
  by code_simp

lemma demo1_runsTo_demo3: "runsTo demoExt demo1 demo3"
  unfolding demo3_def demo2_def by (intro runsTo.serve runsTo.here)

theorem register_then_login_witness:
  "status (fst (register demoExt adaBody (demoEntropy ''id-1'' ''tok-1'') demo0)) = 201
   \<and> profileField (fst (register demoExt adaBody (demoEntropy ''id-1'' ''tok-1'') demo0)) ''email''
       = Some (JStr ''ada@x.com'')
   \<and> profileField (fst (register demoExt adaBody (demoEntropy ''id-1'' ''tok-1'') demo0)) ''id''
       = Some (JStr ''id-1'')
   \<and> status (fst (login demoExt (loginBody ''ADA@x.COM'' ''secret1'') (demoEntropy ''id-6'' ''tok-6'') demo3)) = 200
   \<and> profileField (fst (login demoExt (loginBody ''ADA@x.COM'' ''secret1'') (demoEntropy ''id-6'' ''tok-6'') demo3)) ''id''
       = Some (JStr ''id-1'')"
proof -
  have valid: "registerSchema demoExt adaBody
      = Some \<lparr>name_p = ''Ada'', email_p = ''Ada@X.com'', password_p = ''secret1''\<rparr>"
    by (simp add: schema_defs demo_defs)
  have accepted: "status (fst (register demoExt adaBody (demoEntropy ''id-1'' ''tok-1'') demo0)) = 201"
    unfolding demo0_eval
    by (simp add: register_def demo_defs store_defs schema_defs createSession_def lower_ada
        lower_owner trim_Ada Let_def)
  have later: "runsTo demoExt (snd (register demoExt adaBody (demoEntropy ''id-1'' ''tok-1'') demo0)) demo3"
    using demo1_runsTo_demo3 by (simp add: demo1_def)
  have same: "toLowerCase ''ADA@x.COM''
      = toLowerCase (email_p \<lparr>name_p = ''Ada'', email_p = ''Ada@X.com'', password_p = ''secret1''\<rparr>)"
    by (simp add: lower_ADA lower_ada)
  have email: "isEmail demoExt ''ADA@x.COM''"
    by (simp add: demoExt_def)
  show ?thesis
    using register_then_login [OF verifierSound_demoExt valid accepted later same email,
        of "demoEntropy ''id-6'' ''tok-6''"] accepted
    by (simp add: lower_ada demoEntropy_def)
qed

section \<open>One account per email\<close>

lemma emailsUnique_pair:
  "emailsUnique w \<longleftrightarrow> distinct (map toLowerCase (fst (emailsOf w) @ snd (emailsOf w)))"
  by (simp add: emailsUnique_def emailsOf_def comp_def)

lemma emailsUnique_same: "emailsOf w' = emailsOf w \<Longrightarrow> emailsUnique w \<Longrightarrow> emailsUnique w'"
  by (simp add: emailsUnique_pair)

lemma emailsUnique_register: "emailsUnique w \<Longrightarrow> emailsUnique (snd (register X b e w))"
proof -
  assume w: "emailsUnique w"
  from emailsOf_register [of X b e w] show ?thesis
  proof (elim disjE exE conjE)
    assume "emailsOf (snd (register X b e w)) = emailsOf w"
    with w show ?thesis by (simp add: emailsUnique_pair)
  next
    fix em
    assume "toLowerCase em = em"
      "em \<notin> toLowerCase ` (set (fst (emailsOf w)) \<union> set (snd (emailsOf w)))"
      "emailsOf (snd (register X b e w)) = (fst (emailsOf w) @ [em], snd (emailsOf w))"
    with w show ?thesis by (auto simp: emailsUnique_pair)
  qed
qed

lemma lower_image_id:
  assumes "list_all (\<lambda>em. toLowerCase em = em) xs"
  shows "toLowerCase ` set xs = set xs"
  using assms by (force simp: list_all_iff)

lemma emailsUnique_adminCreateUser:
  assumes low: "emailsLower w" and w: "emailsUnique w"
  shows "emailsUnique (snd (adminCreateUser X h b e w))"
proof -
  have img: "toLowerCase ` set (fst (emailsOf w)) = set (fst (emailsOf w))"
      "toLowerCase ` set (snd (emailsOf w)) = set (snd (emailsOf w))"
    using low by (simp_all add: emailsLower_pair lower_image_id)
  from emailsOf_adminCreateUser [of X h b e w] show ?thesis
  proof (elim disjE exE conjE)
    assume "emailsOf (snd (adminCreateUser X h b e w)) = emailsOf w"
    with w show ?thesis by (simp add: emailsUnique_pair)
  next
    fix em
    assume "toLowerCase em = em" "em \<notin> set (fst (emailsOf w)) \<union> set (snd (emailsOf w))"
      "emailsOf (snd (adminCreateUser X h b e w)) = (fst (emailsOf w) @ [em], snd (emailsOf w))"
    with w img show ?thesis by (auto simp: emailsUnique_pair)
  next
    fix em
    assume "toLowerCase em = em" "em \<notin> set (fst (emailsOf w)) \<union> set (snd (emailsOf w))"
      "emailsOf (snd (adminCreateUser X h b e w)) = (fst (emailsOf w), snd (emailsOf w) @ [em])"
    with w img show ?thesis by (auto simp: emailsUnique_pair)
  qed
qed

lemma emailsUnique_handle:
  assumes "emailsLower w" "emailsUnique w"
  shows "emailsUnique (snd (handle X req w))"
proof (cases req)
  case (Register b e)
  with assms show ?thesis by (simp add: emailsUnique_register)
next
  case (Login b e)
  with assms show ?thesis by (simp add: emailsUnique_same [OF emailsOf_login])
next
  case (GetSession h)
  with assms show ?thesis by (simp add: emailsUnique_same [OF emailsOf_getSessionRoute])
next
  case (GetTodos h)
  with assms show ?thesis by (simp add: emailsUnique_same [OF emailsOf_getTodos])
next
  case (PostTodo h b e)
  with assms show ?thesis by (simp add: emailsUnique_same [OF emailsOf_postTodo])
next
  case (PatchTodo h i b)
  with assms show ?thesis by (simp add: emailsUnique_same [OF emailsOf_patchTodo])
next
  case (DeleteTodo h i)
  with assms show ?thesis by (simp add: emailsUnique_same [OF emailsOf_deleteTodo])
next
  case (AdminOverview h)
  with assms show ?thesis by (simp add: emailsUnique_same [OF emailsOf_adminOverview])
next
  case (AdminCreateUser h b e)
  with assms show ?thesis by (simp add: emailsUnique_adminCreateUser)
qed

text \<open>A start keeps the emails unique when no account of the users partition has
  the seed email.\<close>

lemma emailsUnique_bootstrap:
  assumes "emailsLower w" "emailsUnique w" "seedEmail cfg \<notin> set (fst (emailsOf w))"
  shows "emailsUnique (bootstrap X cfg e w)"
proof -
  have img: "toLowerCase ` set (fst (emailsOf w)) = set (fst (emailsOf w))"
      "toLowerCase ` set (snd (emailsOf w)) = set (snd (emailsOf w))"
    using assms(1) by (simp_all add: emailsLower_pair lower_image_id)
  have s: "toLowerCase (seedEmail cfg) = seedEmail cfg"
    by (simp add: seedEmail_def toLowerCase_idem)
  show ?thesis
    using assms(2,3) img s unfolding emailsUnique_pair emailsOf_bootstrap by auto
qed

lemma seed_kept_by_handle:
  assumes "em \<in> set (snd (emailsOf w))"
  shows "em \<in> set (snd (emailsOf (snd (handle X req w))))"
proof (cases req)
  case (Register b e)
  with assms emailsOf_register [of X b e w] show ?thesis by auto
next
  case (AdminCreateUser h b e)
  with assms emailsOf_adminCreateUser [of X h b e w] show ?thesis by auto
qed (use assms in \<open>simp_all add: emailsOf_login emailsOf_getSessionRoute emailsOf_getTodos
      emailsOf_postTodo emailsOf_patchTodo emailsOf_deleteTodo emailsOf_adminOverview\<close>)

lemma fixed_environment_invariant:
  assumes "reachableWith X cfg w"
  shows "emailsLower w \<and> emailsUnique w \<and> seedEmail cfg \<in> set (snd (emailsOf w))"
  using assms
proof (induction rule: reachableWith.induct)
  case (boot e)
  have "emailsOf (bootstrap X cfg e emptyWorld) = ([], [seedEmail cfg])"
    unfolding emailsOf_bootstrap by (simp add: emailsOf_def emptyWorld_def)
  then show ?case
    by (simp add: emailsLower_pair emailsUnique_pair seedEmail_def toLowerCase_idem)
next
  case (serve w req)
  then show ?case
    by (simp add: emailsLower_handle emailsUnique_handle seed_kept_by_handle)
next
  case (restart w e)
  then have "emailsOf (bootstrap X cfg e w) = emailsOf w"
    by (simp add: emailsOf_bootstrap)
  with restart.IH show ?case
    by (simp add: emailsLower_same emailsUnique_same)
qed


text \<open>Both account-creating requests refuse an email that is in use, before anything
  is written.\<close>

lemma find_exists: "x \<in> set xs \<Longrightarrow> P x \<Longrightarrow> find P xs \<noteq> None"
  by (auto simp: find_None_iff)

lemma register_email_in_use:
  assumes "registerSchema X b = Some p"
    and "\<exists>u \<in> set (usersFile w) \<union> set (adminsFile w). toLowerCase (email u) = toLowerCase (email_p p)"
  shows "register X b e w = (message 409 ''email-in-use'', w)"
proof -
  from assms(2) obtain u where u: "u \<in> set (usersFile w) \<or> u \<in> set (adminsFile w)"
      "toLowerCase (email u) = toLowerCase (email_p p)"
    by auto
  then have "find (\<lambda>user. toLowerCase (email user) = toLowerCase (email_p p)) (readUsers w) \<noteq> None
       \<or> find (\<lambda>admin. toLowerCase (email admin) = toLowerCase (email_p p)) (readAdmins w) \<noteq> None"
    unfolding store_defs using find_exists [of u _ "\<lambda>x. toLowerCase (email x) = toLowerCase (email_p p)"]
    by blast
  then show ?thesis by (rule register_rejected [OF assms(1)])
qed

lemma adminCreateUser_email_in_use:
  assumes "emailsLower w" and "requireAuth w h True = Inr a"
    and "adminCreateUserSchema X b = Some p"
    and "\<exists>u \<in> set (usersFile w) \<union> set (adminsFile w). toLowerCase (email u) = toLowerCase (email_p p)"
  shows "adminCreateUser X h b e w = (message 409 ''email-in-use'', w)"
proof -
  from assms(4) obtain u where u: "u \<in> set (usersFile w) \<or> u \<in> set (adminsFile w)"
      "toLowerCase (email u) = toLowerCase (email_p p)"
    by auto
  have "toLowerCase (email u) = email u"
    using assms(1) u(1) unfolding emailsLower_def lowerCased_def list_all_iff by blast
  with u(2) have "email u = toLowerCase (email_p p)" by simp
  with u(1) have "find (\<lambda>user. email user = toLowerCase (email_p p)) (readUsers w) \<noteq> None
      \<or> find (\<lambda>admin. email admin = toLowerCase (email_p p)) (readAdmins w) \<noteq> None"
    unfolding store_defs using find_exists [of u _ "\<lambda>x. email x = toLowerCase (email_p p)"]
    by blast
  then show ?thesis
    unfolding adminCreateUser_def assms(2) sum.case assms(3) option.case Let_def by simp
qed

text \<open>With one environment for every start, no reachable state holds an email twice.\<close>

lemma emails_unique_under_one_environment: "reachableWith X cfg w \<Longrightarrow> emailsUnique w"
  by (simp add: fixed_environment_invariant)

lemma lower_ada_low: "toLowerCase ''ada@x.com'' = ''ada@x.com''"
  by code_simp

lemma demo4_eval:
  "demo4 = \<lparr>usersFile = [ada\<lparr>todos := Some [milk]\<rparr>],
     adminsFile = [owner, \<lparr>id_u = ''id-7'', name = ''Builder'', email = ''ada@x.com'',
        passwordHash = ''$2a$10$wineryadmin'', createdAt_u = 1000, role = Admin, todos = Some []\<rparr>],
     sessions = Map.empty, writeLog = [Admin, User, User, Admin]\<rparr>"
  unfolding demo4_def demo3_eval
  by (simp add: bootstrap_def ensureSeedAdmin_def adaSeedConfig_def demo_defs store_defs
      orDefault_def lower_ada_low Let_def)

text \<open>
  Claim C1 does not hold of the code. \<^verbatim>\<open>ensureSeedAdmin\<close> looks for the seed email in
  the admins partition only, where registration and provisioning look in both. Start
  the service with the default environment, register \<^verbatim>\<open>Ada@X.com\<close>, and start it again
  with \<^verbatim>\<open>ADMIN_EMAIL=ada@x.com\<close>: the state is one the service reaches, and the email
  \<^verbatim>\<open>ada@x.com\<close> is held by an account of the users partition and by an account of the
  admins partition.
\<close>

theorem seeder_duplicates_an_email:
  "reachable demoExt demo4
   \<and> map email (usersFile demo4) = [''ada@x.com'']
   \<and> map email (adminsFile demo4) = [''owner@winery.board'', ''ada@x.com'']
   \<and> \<not> emailsUnique demo4"
proof -
  have "reachable demoExt demo4"
    unfolding demo4_def by (rule reachable.restart [OF demo3_reachable])
  then show ?thesis
    by (simp add: demo4_eval emailsUnique_def ada_def owner_def lower_ada_low lower_owner)
qed

text \<open>In that state the seeded administrator cannot log in: the email resolves to
  the account of the users partition, whose password is another.\<close>

lemma seeded_admin_cannot_log_in:
  "login demoExt (loginBody ''ada@x.com'' ''wineryadmin'') (demoEntropy ''id-8'' ''tok-8'') demo4
     = (message 401 ''invalid-credentials'', demo4)"
  unfolding demo4_eval
  by (simp add: login_def loginSchema_loginBody findForLogin_def store_defs demo_defs
      lower_ada_low)

section \<open>Creations that overlap\<close>

lemma postTodo_two_phases:
  "postTodo h b e w =
     (case postTodoRead h b e w of Inl r \<Rightarrow> (r, w) | Inr p \<Rightarrow> postTodoWrite p w)"
  by (simp add: postTodo_def postTodoRead_def postTodoWrite_def Let_def
      split: sum.splits option.splits)

lemma postTodoRead_auth:
  assumes "requireAuth w h False = Inr a" and "todoCreateSchema b = Some l"
  shows "postTodoRead h b e w =
     Inr \<lparr>pw_writer = writePartition (role_a a),
          pw_list = (readPartition (role_a a) w)[pos a := (readPartition (role_a a) w ! pos a)
             \<lparr>todos := Some (newTodo (b, e) # orEmpty (todos (user a)))\<rparr>],
          pw_todo = newTodo (b, e)\<rparr>"
proof -
  note d = requireAuth_InrD [OF assms(1)]
  have l: "list_a (setUserTodos a ts) = (readPartition (role_a a) w)[pos a := (readPartition (role_a a) w ! pos a)\<lparr>todos := Some ts\<rparr>]" for ts
    using d by (simp add: setUserTodos_def)
  have wr: "writer (setUserTodos a ts) = writePartition (role_a a)" for ts
    using d by (simp add: setUserTodos_def)
  show ?thesis
    by (simp add: postTodoRead_def assms Let_def l wr newTodo_def orEmpty_def)
qed

lemma postTodo_valid:
  assumes "requireAuth w h False = Inr a" and "todoCreateSchema b = Some l"
  shows "postTodo h b e w =
     (\<lparr>status = 201, body = Some (JObj [(''todo'', todoObj (newTodo (b, e)))])\<rparr>,
      withTodos a (newTodo (b, e) # orEmpty (todos (user a))) w)"
  unfolding postTodo_auth [OF assms(1)] assms(2) by (simp add: newTodo_def assms(2) orEmpty_def)

lemma createAll_todos:
  assumes "requireAuth w h False = Inr a"
    and "\<forall>be \<in> set reqs. todoCreateSchema (fst be) \<noteq> None"
  shows "\<exists>a'. requireAuth (createAll h reqs w) h False = Inr a'
           \<and> pos a' = pos a \<and> role_a a' = role_a a
           \<and> todos (user a') = Some (rev (map newTodo reqs) @ orEmpty (todos (user a)))"
  using assms
proof (induction reqs arbitrary: w a)
  case Nil
  have "todos (user a) = Some (orEmpty (todos (user a)))"
    using requireAuth_InrD [OF Nil(1)] by (simp add: orEmpty_def)
  with Nil(1) show ?case by (simp add: createAll_def)
next
  case (Cons be reqs)
  obtain b e where be: "be = (b, e)" by (cases be)
  from Cons.prems(2) obtain l where l: "todoCreateSchema b = Some l" by (auto simp: be)
  let ?w1 = "withTodos a (newTodo (b, e) # orEmpty (todos (user a))) w"
  have step: "snd (postTodo h b e w) = ?w1"
    by (simp add: postTodo_valid [OF Cons.prems(1) l])
  obtain a1 where a1: "requireAuth ?w1 h False = Inr a1" "pos a1 = pos a" "role_a a1 = role_a a"
      "user a1 = (user a)\<lparr>todos := Some (newTodo (b, e) # orEmpty (todos (user a)))\<rparr>"
    using user_after_withTodos [OF Cons.prems(1)] by blast
  have rest: "\<forall>be \<in> set reqs. todoCreateSchema (fst be) \<noteq> None"
    using Cons.prems(2) by simp
  from Cons.IH [OF a1(1) rest] obtain a' where
    a': "requireAuth (createAll h reqs ?w1) h False = Inr a'" "pos a' = pos a1" "role_a a' = role_a a1"
      "todos (user a') = Some (rev (map newTodo reqs) @ orEmpty (todos (user a1)))"
    by blast
  have unfold: "createAll h (be # reqs) w = createAll h reqs ?w1"
    by (simp add: createAll_def be step)
  show ?case
    unfolding unfold using a' a1 by (simp add: be orEmpty_def)
qed


lemma readReadWriteWrite_auth:
  assumes auth: "requireAuth w h False = Inr a"
    and l1: "todoCreateSchema b1 = Some l1" and l2: "todoCreateSchema b2 = Some l2"
  shows "readReadWriteWrite h b1 e1 b2 e2 w =
     Some (\<lparr>status = 201, body = Some (JObj [(''todo'', todoObj (newTodo (b1, e1)))])\<rparr>,
           \<lparr>status = 201, body = Some (JObj [(''todo'', todoObj (newTodo (b2, e2)))])\<rparr>,
           withTodos a (newTodo (b2, e2) # orEmpty (todos (user a))) w
             \<lparr>writeLog := writeLog w @ [role_a a, role_a a]\<rparr>)"
  unfolding readReadWriteWrite_def postTodoRead_auth [OF auth l1] postTodoRead_auth [OF auth l2]
  by (cases "role_a a") (simp_all add: postTodoWrite_def withTodos_def store_defs)

lemma withTodos_writeLog_gate:
  "requireAuth (v\<lparr>writeLog := x\<rparr>) h ra = requireAuth v h ra"
proof (cases "startsWith (orDefault h []) ''Bearer ''")
  case False
  then show ?thesis by (simp add: requireAuth_missing)
next
  case True
  then obtain t where "orDefault h [] = ''Bearer '' @ t"
    by (auto simp: startsWith_iff)
  then have h: "h = Some (''Bearer '' @ t)"
    by (cases h) (auto simp: orDefault_def split: if_splits)
  have rp: "readPartition r (v\<lparr>writeLog := x\<rparr>) = readPartition r v" for r
    by (simp add: store_defs)
  have se: "sessions (v\<lparr>writeLog := x\<rparr>) = sessions v"
    by simp
  show ?thesis
    unfolding h requireAuth_bearer rp se by (rule refl)
qed

text \<open>
  Claim C9, as amended. The service has no lock or queue around its
  read-modify-write. Creation requests of one authenticated caller that are served
  one after the other, each with a body the schema accepts, are all persisted: the
  caller's list is the new tasks, newest first, followed by the old list, and the
  ids of the new tasks are the ids drawn for them. But when two such requests both
  read the partition before either writes, both are answered 201 and the caller's
  list is the old list with only the task of the later write put first.
\<close>

theorem creations_are_not_serialized:
  assumes "requireAuth w h False = Inr a"
    and "\<forall>be \<in> set reqs. todoCreateSchema (fst be) \<noteq> None"
  shows "(\<exists>a'. requireAuth (createAll h reqs w) h False = Inr a'
            \<and> todos (user a') = Some (rev (map newTodo reqs) @ orEmpty (todos (user a))))
       \<and> map id_t (rev (map newTodo reqs)) = rev (map (\<lambda>be. newId (snd be)) reqs)
       \<and> (\<forall>b1 e1 b2 e2. todoCreateSchema b1 \<noteq> None \<and> todoCreateSchema b2 \<noteq> None \<longrightarrow>
            (\<exists>r1 r2 w2 a2. readReadWriteWrite h b1 e1 b2 e2 w = Some (r1, r2, w2)
               \<and> status r1 = 201 \<and> status r2 = 201
               \<and> requireAuth w2 h False = Inr a2
               \<and> todos (user a2) = Some (newTodo (b2, e2) # orEmpty (todos (user a)))))"
proof (intro conjI allI impI)
  show "\<exists>a'. requireAuth (createAll h reqs w) h False = Inr a'
            \<and> todos (user a') = Some (rev (map newTodo reqs) @ orEmpty (todos (user a)))"
    using createAll_todos [OF assms] by blast
next
  show "map id_t (rev (map newTodo reqs)) = rev (map (\<lambda>be. newId (snd be)) reqs)"
    by (simp add: rev_map newTodo_def comp_def)
next
  fix b1 e1 b2 e2
  assume "todoCreateSchema b1 \<noteq> None \<and> todoCreateSchema b2 \<noteq> None"
  then obtain l1 l2 where l: "todoCreateSchema b1 = Some l1" "todoCreateSchema b2 = Some l2"
    by auto
  let ?ts = "newTodo (b2, e2) # orEmpty (todos (user a))"
  obtain a2 where a2: "requireAuth (withTodos a ?ts w) h False = Inr a2"
      "user a2 = (user a)\<lparr>todos := Some ?ts\<rparr>"
    using user_after_withTodos [OF assms(1)] by blast
  show "\<exists>r1 r2 w2 a2. readReadWriteWrite h b1 e1 b2 e2 w = Some (r1, r2, w2)
               \<and> status r1 = 201 \<and> status r2 = 201
               \<and> requireAuth w2 h False = Inr a2
               \<and> todos (user a2) = Some (newTodo (b2, e2) # orEmpty (todos (user a)))"
    unfolding readReadWriteWrite_auth [OF assms(1) l]
    using a2 by (simp add: withTodos_writeLog_gate)
qed


lemma newTodo_tea:
  "newTodo (teaBody, demoEntropy ''id-a'' ''tok-a'')
     = \<lparr>id_t = ''id-a'', label = ''tea'', done_t = False, createdAt_t = 1000\<rparr>"
proof -
  have "trim ''tea'' = ''tea''" by code_simp
  then show ?thesis
    by (simp add: newTodo_def teaBody_def todoCreateSchema_raw orEmpty_def demoEntropy_def)
qed

lemma newTodo_jam:
  "newTodo (jamBody, demoEntropy ''id-b'' ''tok-b'')
     = \<lparr>id_t = ''id-b'', label = ''jam'', done_t = False, createdAt_t = 1000\<rparr>"
proof -
  have "trim ''jam'' = ''jam''" by code_simp
  then show ?thesis
    by (simp add: newTodo_def jamBody_def todoCreateSchema_raw orEmpty_def demoEntropy_def)
qed

lemma demo3_ada_todos:
  "orEmpty (todos (user \<lparr>pos = 0, list_a = [ada\<lparr>todos := Some [milk]\<rparr>], writer = writeUsers,
      token_a = ''tok-1'', role_a = User\<rparr>)) = [milk]"
  by (simp add: user_def orEmpty_def)

text \<open>
  Claim C9 as stated fails: Ada, whose list holds one task, sends two creation
  requests that both read before either writes. Both get 201, and the users
  partition then holds two tasks for her, not three: the task of the first write is
  gone.
\<close>

theorem concurrent_creations_lose_a_task:
  "readReadWriteWrite (Some ''Bearer tok-1'') teaBody (demoEntropy ''id-a'' ''tok-a'')
       jamBody (demoEntropy ''id-b'' ''tok-b'') demo3
     = Some (\<lparr>status = 201, body = Some (JObj [(''todo'', todoObj
                \<lparr>id_t = ''id-a'', label = ''tea'', done_t = False, createdAt_t = 1000\<rparr>)])\<rparr>,
             \<lparr>status = 201, body = Some (JObj [(''todo'', todoObj
                \<lparr>id_t = ''id-b'', label = ''jam'', done_t = False, createdAt_t = 1000\<rparr>)])\<rparr>,
             demo3\<lparr>usersFile := [ada\<lparr>todos := Some
                      [\<lparr>id_t = ''id-b'', label = ''jam'', done_t = False, createdAt_t = 1000\<rparr>, milk]\<rparr>],
                   writeLog := [Admin, User, User, User, User]\<rparr>)"
proof -
  have 1: "todoCreateSchema teaBody = Some ''tea''" "todoCreateSchema jamBody = Some ''jam''"
    by (simp_all add: teaBody_def jamBody_def todoCreateSchema_raw)
  show ?thesis
    unfolding readReadWriteWrite_auth [OF demo3_ada_auth 1] newTodo_tea newTodo_jam demo3_ada_todos
    by (simp add: withTodos_def store_defs demo3_eval)
qed

theorem creations_are_not_serialized_witness:
  "(\<exists>a'. requireAuth (createAll (Some ''Bearer tok-1'')
              [(teaBody, demoEntropy ''id-a'' ''tok-a''), (jamBody, demoEntropy ''id-b'' ''tok-b'')]
              demo3) (Some ''Bearer tok-1'') False = Inr a'
         \<and> todos (user a') = Some
              [\<lparr>id_t = ''id-b'', label = ''jam'', done_t = False, createdAt_t = 1000\<rparr>,
               \<lparr>id_t = ''id-a'', label = ''tea'', done_t = False, createdAt_t = 1000\<rparr>, milk])
   \<and> (\<exists>r1 r2 w2 a2. readReadWriteWrite (Some ''Bearer tok-1'') teaBody (demoEntropy ''id-a'' ''tok-a'')
           jamBody (demoEntropy ''id-b'' ''tok-b'') demo3 = Some (r1, r2, w2)
         \<and> status r1 = 201 \<and> status r2 = 201
         \<and> requireAuth w2 (Some ''Bearer tok-1'') False = Inr a2
         \<and> todos (user a2) = Some
              [\<lparr>id_t = ''id-b'', label = ''jam'', done_t = False, createdAt_t = 1000\<rparr>, milk])"
proof -
  have v: "\<forall>be \<in> set [(teaBody, demoEntropy ''id-a'' ''tok-a''), (jamBody, demoEntropy ''id-b'' ''tok-b'')].
      todoCreateSchema (fst be) \<noteq> None"
    by (simp add: teaBody_def jamBody_def todoCreateSchema_raw)
  have s: "todoCreateSchema teaBody \<noteq> None \<and> todoCreateSchema jamBody \<noteq> None"
    by (simp add: teaBody_def jamBody_def todoCreateSchema_raw)
  note t = creations_are_not_serialized [OF demo3_ada_auth v]
  from t [THEN conjunct1] have a: "\<exists>a'. requireAuth (createAll (Some ''Bearer tok-1'')
              [(teaBody, demoEntropy ''id-a'' ''tok-a''), (jamBody, demoEntropy ''id-b'' ''tok-b'')]
              demo3) (Some ''Bearer tok-1'') False = Inr a'
         \<and> todos (user a') = Some
              [\<lparr>id_t = ''id-b'', label = ''jam'', done_t = False, createdAt_t = 1000\<rparr>,
               \<lparr>id_t = ''id-a'', label = ''tea'', done_t = False, createdAt_t = 1000\<rparr>, milk]"
    by (simp add: newTodo_tea newTodo_jam demo3_ada_todos)
  from t [THEN conjunct2, THEN conjunct2, THEN spec, THEN spec, THEN spec, THEN spec, THEN mp, OF s,
      of "demoEntropy ''id-a'' ''tok-a''" "demoEntropy ''id-b'' ''tok-b''"]
  have b: "\<exists>r1 r2 w2 a2. readReadWriteWrite (Some ''Bearer tok-1'') teaBody (demoEntropy ''id-a'' ''tok-a'')
           jamBody (demoEntropy ''id-b'' ''tok-b'') demo3 = Some (r1, r2, w2)
         \<and> status r1 = 201 \<and> status r2 = 201
         \<and> requireAuth w2 (Some ''Bearer tok-1'') False = Inr a2
         \<and> todos (user a2) = Some
              [\<lparr>id_t = ''id-b'', label = ''jam'', done_t = False, createdAt_t = 1000\<rparr>, milk]"
    by (simp add: newTodo_jam demo3_ada_todos)
  from a b show ?thesis by blast
qed

end
